theory Spec2Isabelle
  imports Complex_Main
begin

section \<open>JavaScript numbers, remainder and number formatting\<close>

text \<open>
  The slider keeps its cursor, its counts and its options in JavaScript numbers, which are
  IEEE doubles. The values the slider computes are integers, and they are modelled as
  \<^typ>\<open>int\<close>. Three operators of the source are not the HOL ones and are written out:
  \<^item> a sum, a difference or a product is rounded to the nearest double, ties to the even
    mantissa. Every integer below \<open>2^53\<close> in magnitude is a double, so the rounding only
    shows on the one number the public interface can drive that far, the cursor:
    \<open>toDouble\<close> rounds an integer to the nearest double (\<open>2^53 + 1\<close> becomes \<open>2^53\<close>).
    Lengths and counts are bounded by the cards held in memory and are exact, and the
    growth test \<open>length - currentIndex - visible < step * 3\<close> can only round for a
    cursor beyond \<open>2^53\<close>, where the difference is too far from \<open>step * 3\<close> for the
    rounding to change the test;
  \<^item> \<open>a % b\<close> is the truncated remainder, whose sign follows the dividend
    (\<open>-3 % 9\<close> is \<open>-3\<close>), where HOL's \<open>mod\<close> follows the divisor;
  \<^item> \<open>Math.floor(a / b)\<close> and \<open>Math.ceil(a / b)\<close> divide as reals and round afterwards.
  A divisor \<open>0\<close> gives \<open>NaN\<close> or \<open>Infinity\<close> in the source, and so does a result beyond the
  largest double (about \<open>1.8e308\<close>); both are outside the model (the properties below
  assume \<open>step > 0\<close> and a successful construction, which gives \<open>cardCount \<ge> 1\<close>).
\<close>

text \<open>The number of binary digits of a positive integer.\<close>

function bitLength :: "int \<Rightarrow> nat" where
  "bitLength n = (if n \<le> 0 then 0 else Suc (bitLength (n div 2)))"
  by pat_completeness auto
termination
  by (relation "measure nat") auto

text \<open>
  Rounding to a double keeps the 53 leading binary digits: \<open>e\<close> digits are dropped, \<open>r\<close>
  is what they held, and the kept part \<open>q\<close> goes up when \<open>r\<close> is above one half, or is
  one half and \<open>q\<close> is odd.
\<close>

definition toDouble :: "int \<Rightarrow> int" where
  "toDouble x =
     (let m = \<bar>x\<bar> in
      if m < 2 ^ 53 then x
      else (let e = bitLength m - 53;
                q = m div 2 ^ e;
                r = m mod 2 ^ e;
                q' = (if 2 ^ e < 2 * r \<or> (2 * r = 2 ^ e \<and> odd q) then q + 1 else q)
            in sgn x * (q' * 2 ^ e)))"

definition js_rem :: "int \<Rightarrow> int \<Rightarrow> int" where
  "js_rem a b = sgn a * (\<bar>a\<bar> mod \<bar>b\<bar>)"

definition floor_quot :: "int \<Rightarrow> int \<Rightarrow> int" where
  "floor_quot a b = \<lfloor>real_of_int a / real_of_int b\<rfloor>"

definition ceil_quot :: "int \<Rightarrow> int \<Rightarrow> int" where
  "ceil_quot a b = \<lceil>real_of_int a / real_of_int b\<rceil>"

text \<open>Template literals print an integer in decimal, with a leading minus sign.\<close>

fun showNat :: "nat \<Rightarrow> string" where
  "showNat n =
     (if n < 10 then [''0123456789'' ! n]
      else showNat (n div 10) @ [''0123456789'' ! (n mod 10)])"

definition numberToString :: "int \<Rightarrow> string" where
  "numberToString i = (if i < 0 then CHR ''-'' # showNat (nat (- i)) else showNat (nat i))"

section \<open>The slider\<close>

text \<open>
  \<open>Slider\<close> is a class over the DOM. Its state is a record of the fields the operations
  read and write; a DOM element that may be \<open>null\<close> is an \<open>option\<close> holding what the
  slider observes of it: the children of the track, the \<open>disabled\<close> flag of a button, the
  text of the page indicator, the \<open>active\<close> flag of every dot. The pixel geometry
  (\<open>cardWidth\<close>, \<open>itemWidth\<close>, the CSS transform and transition strings) is measured from
  the browser in floating point and influences none of these fields; it is left out, and
  with it the options \<open>duration\<close>, \<open>easing\<close> and \<open>label\<close>.

  An original card is opaque and identified by its place in the card row. A clone carries
  the two \<open>dataset\<close> entries the slider writes on it.
\<close>

datatype error = Error string | TypeError

datatype card = Original nat | Clone (originalIndex: int) (position: int)

record sliderOptions =
  visible :: int
  step :: int
  infinite_opt :: bool

record slider =
  options :: sliderOptions
  cardCount :: int
  totalPages :: int
  track :: "card list option"
  allCards :: "card list"
  prevBtn :: "bool option"
  nextBtn :: "bool option"
  pageIndicator :: "string option"
  dots :: "bool list option"
  currentIndex :: int
  isMoving :: bool
  registered :: bool
  errorLog :: "error list"

text \<open>
  A method that can throw returns \<open>Inl\<close> with the error and the state at the throw
  (mutations made before a throw persist on the object), or \<open>Inr\<close> with the new state.
\<close>

type_synonym result = "(error \<times> slider) + slider"

text \<open>The field initialisers of the class, with the options of the constructor.\<close>

definition initial :: "sliderOptions \<Rightarrow> slider" where
  "initial opts =
     \<lparr>options = opts, cardCount = 0, totalPages = 0, track = None, allCards = [],
      prevBtn = None, nextBtn = None, pageIndicator = None, dots = None,
      currentIndex = 0, isMoving = False, registered = False, errorLog = []\<rparr>"

subsection \<open>Controls\<close>

definition currentPage_of :: "int \<Rightarrow> int \<Rightarrow> int \<Rightarrow> int" where
  "currentPage_of idx cnt stp = (let logicalIndex = js_rem idx cnt in floor_quot logicalIndex stp + 1)"

definition pageLabel :: "int \<Rightarrow> int \<Rightarrow> string" where
  "pageLabel currentPage pages = numberToString currentPage @ '' / '' @ numberToString pages"

definition updatePagination :: "slider \<Rightarrow> slider" where
  "updatePagination s =
     (case (pageIndicator s, dots s) of
        (Some _, Some ds) \<Rightarrow>
          (let currentPage = currentPage_of (currentIndex s) (cardCount s) (step (options s))
           in s\<lparr>pageIndicator := Some (pageLabel currentPage (totalPages s)),
                dots := Some (map (\<lambda>i. int i = currentPage - 1) [0..<length ds])\<rparr>)
      | _ \<Rightarrow> s)"

definition updateButtons :: "slider \<Rightarrow> slider" where
  "updateButtons s =
     (case (prevBtn s, nextBtn s) of
        (Some _, Some _) \<Rightarrow>
          (if infinite_opt (options s) then s\<lparr>prevBtn := Some False, nextBtn := Some False\<rparr>
           else s\<lparr>prevBtn := Some (currentIndex s \<le> 0),
                  nextBtn := Some (currentIndex s \<ge> cardCount s - visible (options s))\<rparr>)
      | _ \<Rightarrow> s)"

definition updateControls :: "slider \<Rightarrow> slider" where
  "updateControls s = updateButtons (updatePagination s)"

subsection \<open>Construction\<close>

text \<open>
  The section handed to the constructor is modelled by what \<open>_findElements\<close> reads of it:
  \<open>None\<close> when it has no \<open>.card-row\<close> container, otherwise the number of children of
  that container.
\<close>

definition findElements :: "nat option \<Rightarrow> slider \<Rightarrow> result" where
  "findElements section s =
     (case section of
        None \<Rightarrow> Inl (Error ''Card container (.card-row) not found'', s)
      | Some n \<Rightarrow>
          (let s1 = s\<lparr>cardCount := int n\<rparr>
           in if cardCount s1 = 0 then Inl (Error ''No cards found'', s1)
              else Inr (s1\<lparr>totalPages := ceil_quot (cardCount s1) (step (options s1))\<rparr>)))"

function dotsLoop :: "int \<Rightarrow> int \<Rightarrow> bool list \<Rightarrow> bool list" where
  "dotsLoop pages i ds = (if i < pages then dotsLoop pages (i + 1) (ds @ [False]) else ds)"
  by pat_completeness auto
termination
  by (relation "measure (\<lambda>(pages, i, ds). nat (pages - i))") auto

definition buildDots :: "slider \<Rightarrow> slider" where
  "buildDots s =
     (case dots s of None \<Rightarrow> s | Some _ \<Rightarrow> s\<lparr>dots := Some (dotsLoop (totalPages s) 0 [])\<rparr>)"

definition buildControls :: "slider \<Rightarrow> slider" where
  "buildControls s =
     buildDots (s\<lparr>prevBtn := Some False, nextBtn := Some False,
                  pageIndicator := Some [], dots := Some []\<rparr>)"

definition buildDOM :: "slider \<Rightarrow> slider" where
  "buildDOM s = buildControls (s\<lparr>track := Some []\<rparr>)"

text \<open>
  The two cloning loops append every clone to the track and to \<open>allCards\<close>. The pair
  threaded through the recursion is (children of the track, \<open>allCards\<close>).
\<close>

function createLoop :: "int \<Rightarrow> int \<Rightarrow> int \<Rightarrow> card list \<times> card list \<Rightarrow> card list \<times> card list" where
  "createLoop cnt totalCards i (tr, al) =
     (if i < totalCards
      then (let card = Clone (js_rem i cnt) i
            in createLoop cnt totalCards (i + 1) (tr @ [card], al @ [card]))
      else (tr, al))"
  by pat_completeness auto
termination
  by (relation "measure (\<lambda>(cnt, totalCards, i, p). nat (totalCards - i))") auto

function addLoop :: "int \<Rightarrow> int \<Rightarrow> int \<Rightarrow> int \<Rightarrow> card list \<times> card list \<Rightarrow> card list \<times> card list" where
  "addLoop cnt currentLength cardsToAdd i (tr, al) =
     (if i < cardsToAdd
      then (let card = Clone (js_rem (currentLength + i) cnt) (currentLength + i)
            in addLoop cnt currentLength cardsToAdd (i + 1) (tr @ [card], al @ [card]))
      else (tr, al))"
  by pat_completeness auto
termination
  by (relation "measure (\<lambda>(cnt, currentLength, cardsToAdd, i, p). nat (cardsToAdd - i))") auto

text \<open>
  \<open>this.track!\<close> is dereferenced once per appended card: with no track the first
  iteration throws a \<open>TypeError\<close>, and a loop that does not run throws nothing.
\<close>

definition createInfiniteLoop :: "slider \<Rightarrow> result" where
  "createInfiniteLoop s =
     (if \<not> infinite_opt (options s) then
        (case track s of
           None \<Rightarrow> if 0 < cardCount s then Inl (TypeError, s) else Inr s
         | Some tr \<Rightarrow> Inr (s\<lparr>track := Some (tr @ map Original [0..<nat (cardCount s)])\<rparr>))
      else
        (let totalCards = visible (options s) + step (options s) * 10;
             s1 = s\<lparr>allCards := []\<rparr>
         in case track s1 of
              None \<Rightarrow> if 0 < totalCards then Inl (TypeError, s1) else Inr s1
            | Some tr \<Rightarrow>
                (case createLoop (cardCount s1) totalCards 0 (tr, allCards s1) of
                   (tr', al') \<Rightarrow> Inr (s1\<lparr>track := Some tr', allCards := al'\<rparr>))))"

definition goTo :: "slider \<Rightarrow> int \<Rightarrow> bool \<Rightarrow> slider" where
  "goTo s index animate =
     (if isMoving s \<and> animate then s
      else case track s of
             None \<Rightarrow> s
           | Some _ \<Rightarrow>
               (let s1 = s\<lparr>currentIndex := index\<rparr>;
                    s2 = (if animate then s1\<lparr>isMoving := True\<rparr> else s1)
                in updateControls s2))"

text \<open>
  \<open>_init\<close> runs the construction steps inside \<open>try\<close>; its \<open>catch\<close> logs the error with
  \<open>console.error\<close> and returns normally. \<open>_measure\<close> and \<open>_bind\<close> change no modelled field.
\<close>

definition init :: "nat option \<Rightarrow> slider \<Rightarrow> slider" where
  "init section s =
     (case findElements section s of
        Inl (e, s') \<Rightarrow> s'\<lparr>errorLog := errorLog s' @ [e]\<rparr>
      | Inr s1 \<Rightarrow>
          (case createInfiniteLoop (buildDOM s1) of
             Inl (e, s') \<Rightarrow> s'\<lparr>errorLog := errorLog s' @ [e]\<rparr>
           | Inr s2 \<Rightarrow> (updateControls (goTo s2 0 False))\<lparr>registered := True\<rparr>))"

text \<open>The constructor: it calls \<open>_init\<close>, which lets no error escape.\<close>

definition Slider_new :: "sliderOptions \<Rightarrow> nat option \<Rightarrow> result" where
  "Slider_new opts section = Inr (init section (initial opts))"

subsection \<open>Moves\<close>

definition ensureEnoughCards :: "slider \<Rightarrow> result" where
  "ensureEnoughCards s =
     (let remainingCards = int (length (allCards s)) - currentIndex s - visible (options s)
      in if remainingCards < step (options s) * 3 then
           (let cardsToAdd = cardCount s * 2;
                currentLength = int (length (allCards s))
            in case track s of
                 None \<Rightarrow> if 0 < cardsToAdd then Inl (TypeError, s) else Inr s
               | Some tr \<Rightarrow>
                   (case addLoop (cardCount s) currentLength cardsToAdd 0 (tr, allCards s) of
                      (tr', al') \<Rightarrow> Inr (s\<lparr>track := Some tr', allCards := al'\<rparr>)))
         else Inr s)"

definition handleTransitionEnd :: "slider \<Rightarrow> result" where
  "handleTransitionEnd s =
     (let s1 = s\<lparr>isMoving := False\<rparr>
      in if \<not> infinite_opt (options s1) then Inr s1
         else case ensureEnoughCards s1 of
                Inl x \<Rightarrow> Inl x
              | Inr s2 \<Rightarrow> Inr (updateControls s2))"

definition Slider_next :: "slider \<Rightarrow> slider" where
  "Slider_next s =
     (if isMoving s then s
      else (let s1 = s\<lparr>currentIndex := toDouble (currentIndex s + step (options s))\<rparr>
            in goTo s1 (currentIndex s1) True))"

definition Slider_prev :: "slider \<Rightarrow> slider" where
  "Slider_prev s =
     (if isMoving s then s
      else (let s1 = s\<lparr>currentIndex := toDouble (currentIndex s - step (options s))\<rparr>
            in goTo s1 (currentIndex s1) True))"

definition goToPage :: "int \<Rightarrow> slider \<Rightarrow> slider" where
  "goToPage page s =
     (if isMoving s then s
      else (let s1 = s\<lparr>currentIndex := toDouble (page * step (options s))\<rparr>
            in goTo s1 (currentIndex s1) True))"

text \<open>The body of the debounced resize handler, and \<open>destroy\<close>.\<close>

definition resize :: "slider \<Rightarrow> slider" where
  "resize s = goTo s (currentIndex s) False"

definition destroy :: "slider \<Rightarrow> slider" where
  "destroy s = s\<lparr>registered := False\<rparr>"

subsection \<open>Sequences of operations\<close>

text \<open>
  What can happen to a constructed slider: the three public moves, the \<open>transitionend\<close>
  event of the track, the resize handler and \<open>destroy\<close>. A sequence stops at the first
  error.
\<close>

datatype op = Next | Prev | GoToPage int | TransitionEnd | Resize | Destroy

fun apply_op :: "op \<Rightarrow> slider \<Rightarrow> result" where
  "apply_op Next s = Inr (Slider_next s)"
| "apply_op Prev s = Inr (Slider_prev s)"
| "apply_op (GoToPage page) s = Inr (goToPage page s)"
| "apply_op TransitionEnd s = handleTransitionEnd s"
| "apply_op Resize s = Inr (resize s)"
| "apply_op Destroy s = Inr (destroy s)"

fun run :: "op list \<Rightarrow> slider \<Rightarrow> result" where
  "run [] s = Inr s"
| "run (x # xs) s = (case apply_op x s of Inl e \<Rightarrow> Inl e | Inr s' \<Rightarrow> run xs s')"

text \<open>\<open>k\<close> completed moves: each call is followed by the completion handler.\<close>

fun nexts :: "nat \<Rightarrow> slider \<Rightarrow> result" where
  "nexts 0 s = Inr s"
| "nexts (Suc k) s =
     (case handleTransitionEnd (Slider_next s) of Inl e \<Rightarrow> Inl e | Inr s' \<Rightarrow> nexts k s')"

fun prevs :: "nat \<Rightarrow> slider \<Rightarrow> result" where
  "prevs 0 s = Inr s"
| "prevs (Suc k) s =
     (case handleTransitionEnd (Slider_prev s) of Inl e \<Rightarrow> Inl e | Inr s' \<Rightarrow> prevs k s')"

section \<open>The like store\<close>

text \<open>
  \<open>MemoryLikeStorage.initializeRandomCounts\<close> walks the ids and draws one random number for
  every id that has no count yet. \<open>Math.random\<close> is the stream \<open>rand\<close> of its successive
  results, and the store is threaded together with the number of draws made so far.
  The draw is a double and so is its product with \<open>490\<close>: \<open>fl\<close> is the rounding of that
  product to a double.
\<close>

definition randomCount :: "(real \<Rightarrow> real) \<Rightarrow> real \<Rightarrow> int" where
  "randomCount fl r = \<lfloor>fl (r * 490)\<rfloor> + 10"

fun initializeRandomCounts ::
  "(real \<Rightarrow> real) \<Rightarrow> (nat \<Rightarrow> real) \<Rightarrow> string list \<Rightarrow> (string \<rightharpoonup> int) \<times> nat \<Rightarrow> (string \<rightharpoonup> int) \<times> nat" where
  "initializeRandomCounts fl rand [] st = st"
| "initializeRandomCounts fl rand (contentId # contentIds) (likeCounts, n) =
     (if likeCounts contentId = None
      then initializeRandomCounts fl rand contentIds
             (likeCounts(contentId \<mapsto> randomCount fl (rand n)), Suc n)
      else initializeRandomCounts fl rand contentIds (likeCounts, n))"

section \<open>Well-formed states\<close>

text \<open>
  What a successful construction establishes and every operation keeps: the DOM is built
  around at least one card, the page indicator and the dots show the page of the cursor,
  the buttons show the state computed from the cursor, and the clones follow the modular
  pattern from position \<open>0\<close> on.
\<close>

definition built :: "slider \<Rightarrow> bool" where
  "built s \<longleftrightarrow>
     track s \<noteq> None \<and> 1 \<le> cardCount s \<and>
     totalPages s = ceil_quot (cardCount s) (step (options s))"

definition pagination_ok :: "slider \<Rightarrow> bool" where
  "pagination_ok s \<longleftrightarrow>
     pageIndicator s =
       Some (pageLabel (currentPage_of (currentIndex s) (cardCount s) (step (options s)))
               (totalPages s)) \<and>
     dots s =
       Some (map (\<lambda>i. int i = currentPage_of (currentIndex s) (cardCount s) (step (options s)) - 1)
               [0..<nat (totalPages s)])"

definition buttons_ok :: "slider \<Rightarrow> bool" where
  "buttons_ok s \<longleftrightarrow>
     prevBtn s = Some (\<not> infinite_opt (options s) \<and> currentIndex s \<le> 0) \<and>
     nextBtn s =
       Some (\<not> infinite_opt (options s) \<and> cardCount s - visible (options s) \<le> currentIndex s)"

definition pattern_ok :: "slider \<Rightarrow> bool" where
  "pattern_ok s \<longleftrightarrow>
     allCards s = map (\<lambda>p. Clone (p mod cardCount s) p) [0..int (length (allCards s)) - 1]"

definition constructed :: "slider \<Rightarrow> bool" where
  "constructed s \<longleftrightarrow> built s \<and> pagination_ok s \<and> buttons_ok s \<and> pattern_ok s"

text \<open>The controls exist and there is one dot per page.\<close>

definition has_controls :: "slider \<Rightarrow> bool" where
  "has_controls s \<longleftrightarrow>
     pageIndicator s \<noteq> None \<and> prevBtn s \<noteq> None \<and> nextBtn s \<noteq> None \<and>
     map_option length (dots s) = Some (nat (totalPages s))"

text \<open>The clones one growth step appends to a sequence of length \<open>len\<close>.\<close>

definition batch :: "int \<Rightarrow> int \<Rightarrow> card list" where
  "batch cnt len = map (\<lambda>j. Clone (js_rem (len + j) cnt) (len + j)) [0..cnt * 2 - 1]"

text \<open>A rail of nine cards with the default options, used in the examples.\<close>

definition exampleOptions :: sliderOptions where
  "exampleOptions = \<lparr>visible = 6, step = 3, infinite_opt = True\<rparr>"

definition exampleSlider :: slider where
  "exampleSlider = init (Some 9) (initial exampleOptions)"


text \<open>
  The label as the specification words it, with the mathematical \<open>mod\<close>:
  \<open>logicalIndex = currentIndex mod cardCount\<close>,
  \<open>currentPage = floor(logicalIndex / step) + 1\<close>, \<open>totalPages = ceil(cardCount / step)\<close>.
\<close>

definition spec_pageLabel :: "int \<Rightarrow> int \<Rightarrow> int \<Rightarrow> string" where
  "spec_pageLabel idx cnt stp =
     (let logicalIndex = idx mod cnt;
          currentPage = floor_quot logicalIndex stp + 1
      in numberToString currentPage @ '' / '' @ numberToString (ceil_quot cnt stp))"

text \<open>The page \<open>_updatePagination\<close> computes in a state.\<close>

definition currentPage :: "slider \<Rightarrow> int" where
  "currentPage s = currentPage_of (currentIndex s) (cardCount s) (step (options s))"

text \<open>The clones left beyond the window: the quantity \<open>_ensureEnoughCards\<close> tests.\<close>

definition remainingCards :: "slider \<Rightarrow> int" where
  "remainingCards s = int (length (allCards s)) - currentIndex s - visible (options s)"

section \<open>Arithmetic and loops in closed form\<close>

text \<open>
  The recursive equations of the loops are unfolded by hand, one iteration at a time.
\<close>

declare createLoop.simps [simp del] addLoop.simps [simp del] dotsLoop.simps [simp del]
  showNat.simps [simp del] bitLength.simps [simp del]


lemma floor_quot_div: "floor_quot a b = a div b"
  unfolding floor_quot_def by (simp add: floor_divide_of_int_eq)

lemma ceil_quot_div: "ceil_quot a b = - ((- a) div b)"
proof -
  have "\<lceil>real_of_int a / real_of_int b\<rceil> = - \<lfloor>real_of_int (- a) / real_of_int b\<rfloor>"
    by (simp add: ceiling_def)
  then show ?thesis
    unfolding ceil_quot_def by (simp only: floor_divide_of_int_eq)
qed

declare floor_quot_div [code] ceil_quot_div [code]

lemma toDouble_exact: "\<bar>x\<bar> < 2 ^ 53 \<Longrightarrow> toDouble x = x"
  by (simp add: toDouble_def)

lemma js_rem_nonneg: "0 \<le> a \<Longrightarrow> 0 < b \<Longrightarrow> js_rem a b = a mod b"
  by (cases "a = 0") (simp_all add: js_rem_def)

lemma createLoop_eq:
  "createLoop cnt totalCards i (tr, al) =
     (tr @ map (\<lambda>p. Clone (js_rem p cnt) p) [i..totalCards - 1],
      al @ map (\<lambda>p. Clone (js_rem p cnt) p) [i..totalCards - 1])"
proof (induction cnt totalCards i "(tr, al)" arbitrary: tr al rule: createLoop.induct)
  case (1 cnt totalCards i tr al)
  show ?case
  proof (cases "i < totalCards")
    case True
    then have "[i..totalCards - 1] = i # [i + 1..totalCards - 1]"
      by (simp add: upto_rec1)
    with True 1 show ?thesis by (subst createLoop.simps) (simp add: Let_def)
  next
    case False
    then show ?thesis by (subst createLoop.simps) simp
  qed
qed

lemma addLoop_eq:
  "addLoop cnt len cardsToAdd i (tr, al) =
     (tr @ map (\<lambda>j. Clone (js_rem (len + j) cnt) (len + j)) [i..cardsToAdd - 1],
      al @ map (\<lambda>j. Clone (js_rem (len + j) cnt) (len + j)) [i..cardsToAdd - 1])"
proof (induction cnt len cardsToAdd i "(tr, al)" arbitrary: tr al rule: addLoop.induct)
  case (1 cnt len cardsToAdd i tr al)
  show ?case
  proof (cases "i < cardsToAdd")
    case True
    then have "[i..cardsToAdd - 1] = i # [i + 1..cardsToAdd - 1]"
      by (simp add: upto_rec1)
    with True 1 show ?thesis by (subst addLoop.simps) (simp add: Let_def)
  next
    case False
    then show ?thesis by (subst addLoop.simps) simp
  qed
qed

lemma dotsLoop_eq: "dotsLoop pages i ds = ds @ replicate (nat (pages - i)) False"
proof (induction pages i ds rule: dotsLoop.induct)
  case (1 pages i ds)
  show ?case
  proof (cases "i < pages")
    case True
    then have "nat (pages - i) = Suc (nat (pages - (i + 1)))" by simp
    with True 1 show ?thesis by (subst dotsLoop.simps) (simp add: replicate_append_same)
  next
    case False
    then show ?thesis by (subst dotsLoop.simps) simp
  qed
qed

section \<open>Every operation keeps a constructed slider well formed\<close>

lemma updatePagination_fields [simp]:
  "options (updatePagination s) = options s"
  "cardCount (updatePagination s) = cardCount s"
  "totalPages (updatePagination s) = totalPages s"
  "track (updatePagination s) = track s"
  "allCards (updatePagination s) = allCards s"
  "prevBtn (updatePagination s) = prevBtn s"
  "nextBtn (updatePagination s) = nextBtn s"
  "currentIndex (updatePagination s) = currentIndex s"
  "isMoving (updatePagination s) = isMoving s"
  "registered (updatePagination s) = registered s"
  "errorLog (updatePagination s) = errorLog s"
  by (simp_all add: updatePagination_def Let_def split: option.splits)

lemma updateButtons_fields [simp]:
  "options (updateButtons s) = options s"
  "cardCount (updateButtons s) = cardCount s"
  "totalPages (updateButtons s) = totalPages s"
  "track (updateButtons s) = track s"
  "allCards (updateButtons s) = allCards s"
  "pageIndicator (updateButtons s) = pageIndicator s"
  "dots (updateButtons s) = dots s"
  "currentIndex (updateButtons s) = currentIndex s"
  "isMoving (updateButtons s) = isMoving s"
  "registered (updateButtons s) = registered s"
  "errorLog (updateButtons s) = errorLog s"
  by (simp_all add: updateButtons_def split: option.splits)

lemma updateControls_fields [simp]:
  "options (updateControls s) = options s"
  "cardCount (updateControls s) = cardCount s"
  "totalPages (updateControls s) = totalPages s"
  "track (updateControls s) = track s"
  "allCards (updateControls s) = allCards s"
  "currentIndex (updateControls s) = currentIndex s"
  "isMoving (updateControls s) = isMoving s"
  "registered (updateControls s) = registered s"
  "errorLog (updateControls s) = errorLog s"
  by (simp_all add: updateControls_def)

lemma updateControls_ok:
  assumes "has_controls s"
  shows "pagination_ok (updateControls s)" and "buttons_ok (updateControls s)"
    and "has_controls (updateControls s)"
  using assms
  by (auto simp: has_controls_def pagination_ok_def buttons_ok_def updateControls_def
      updatePagination_def updateButtons_def Let_def split: option.splits)

lemma constructed_has_controls: "constructed s \<Longrightarrow> has_controls s"
  by (auto simp: constructed_def has_controls_def pagination_ok_def buttons_ok_def)

lemma built_updateControls [simp]: "built (updateControls s) = built s"
  by (simp add: built_def)

lemma pattern_ok_updateControls [simp]: "pattern_ok (updateControls s) = pattern_ok s"
  by (simp add: pattern_ok_def)

lemma constructed_updateControls:
  assumes "built s" "has_controls s" "pattern_ok s"
  shows "constructed (updateControls s)"
  using assms updateControls_ok[of s] by (simp add: constructed_def)

lemma constructed_goTo:
  assumes "constructed s"
  shows "constructed (goTo s i a)"
proof -
  have hc: "has_controls s" using assms by (rule constructed_has_controls)
  have b: "built s" and p: "pattern_ok s" using assms by (simp_all add: constructed_def)
  obtain tr where tr: "track s = Some tr" using b by (auto simp: built_def)
  show ?thesis
  proof (cases "isMoving s \<and> a")
    case True
    then show ?thesis using assms by (simp add: goTo_def)
  next
    case False
    let ?s2 = "if a then s\<lparr>currentIndex := i, isMoving := True\<rparr> else s\<lparr>currentIndex := i\<rparr>"
    have "goTo s i a = updateControls ?s2"
      using False tr by (auto simp: goTo_def Let_def)
    moreover have "built ?s2" "has_controls ?s2" "pattern_ok ?s2"
      using b hc p by (simp_all add: built_def has_controls_def pattern_ok_def)
    ultimately show ?thesis by (simp add: constructed_updateControls)
  qed
qed


lemma length_batch [simp]: "length (batch cnt len) = nat (cnt * 2)"
  by (simp add: batch_def)

lemma nth_batch:
  "j < nat (cnt * 2) \<Longrightarrow> batch cnt len ! j = Clone (js_rem (len + int j) cnt) (len + int j)"
  by (simp add: batch_def)

lemma pattern_ok_nth:
  "pattern_ok s \<longleftrightarrow>
     (\<forall>p < length (allCards s). allCards s ! p = Clone (int p mod cardCount s) (int p))"
  unfolding pattern_ok_def by (subst list_eq_iff_nth_eq) simp

lemma ensureEnoughCards_eq:
  assumes "track s = Some tr"
  shows "ensureEnoughCards s =
     Inr (if int (length (allCards s)) - currentIndex s - visible (options s) < step (options s) * 3
          then s\<lparr>track := Some (tr @ batch (cardCount s) (int (length (allCards s)))),
                 allCards := allCards s @ batch (cardCount s) (int (length (allCards s)))\<rparr>
          else s)"
  using assms by (simp add: ensureEnoughCards_def Let_def addLoop_eq batch_def)

lemma pattern_ok_append_batch:
  assumes "pattern_ok s" "1 \<le> cardCount s"
  shows "pattern_ok (s\<lparr>track := t, allCards := allCards s @ batch (cardCount s) (int (length (allCards s)))\<rparr>)"
proof -
  have "(allCards s @ batch (cardCount s) (int (length (allCards s)))) ! p = Clone (int p mod cardCount s) (int p)"
    if "p < length (allCards s) + nat (cardCount s * 2)" for p
  proof (cases "p < length (allCards s)")
    case True
    then show ?thesis using assms(1) by (simp add: pattern_ok_nth nth_append)
  next
    case False
    then have "p - length (allCards s) < nat (cardCount s * 2)" using that by simp
    then have "batch (cardCount s) (int (length (allCards s))) ! (p - length (allCards s)) =
       Clone (js_rem (int p) (cardCount s)) (int p)"
      using False by (simp add: nth_batch)
    then show ?thesis using False assms(2) by (simp add: nth_append js_rem_nonneg)
  qed
  then show ?thesis by (simp add: pattern_ok_nth)
qed

lemma constructed_handleTransitionEnd:
  assumes "constructed s"
  shows "\<exists>s'. handleTransitionEnd s = Inr s' \<and> constructed s' \<and> \<not> isMoving s' \<and>
     options s' = options s \<and> cardCount s' = cardCount s \<and> currentIndex s' = currentIndex s"
proof -
  let ?s1 = "s\<lparr>isMoving := False\<rparr>"
  have c1: "constructed ?s1"
    using assms by (simp add: constructed_def built_def pagination_ok_def buttons_ok_def pattern_ok_def)
  obtain tr where tr: "track ?s1 = Some tr" using c1 by (auto simp: constructed_def built_def)
  show ?thesis
  proof (cases "infinite_opt (options s)")
    case False
    then show ?thesis using c1 by (simp add: handleTransitionEnd_def)
  next
    case True
    let ?grow = "int (length (allCards ?s1)) - currentIndex ?s1 - visible (options ?s1) < step (options ?s1) * 3"
    let ?s2 = "if ?grow
          then ?s1\<lparr>track := Some (tr @ batch (cardCount ?s1) (int (length (allCards ?s1)))),
                 allCards := allCards ?s1 @ batch (cardCount ?s1) (int (length (allCards ?s1)))\<rparr>
          else ?s1"
    have e: "ensureEnoughCards ?s1 = Inr ?s2" using ensureEnoughCards_eq[OF tr] .
    have b: "built ?s2" using c1 by (simp add: constructed_def built_def)
    have h: "has_controls ?s2"
      using constructed_has_controls[OF c1] by (simp add: has_controls_def)
    have p: "pattern_ok ?s2"
    proof (cases ?grow)
      case True
      have "pattern_ok ?s1" "1 \<le> cardCount ?s1" using c1 by (simp_all add: constructed_def built_def)
      from pattern_ok_append_batch[OF this] show ?thesis using True by simp
    next
      case False
      then show ?thesis using c1 by (simp add: constructed_def)
    qed
    have "handleTransitionEnd s = Inr (updateControls ?s2)"
      using True e by (simp add: handleTransitionEnd_def Let_def)
    moreover have "constructed (updateControls ?s2)"
      using b h p by (rule constructed_updateControls)
    ultimately show ?thesis by simp
  qed
qed


lemma goTo_fields [simp]:
  "options (goTo s i a) = options s"
  "cardCount (goTo s i a) = cardCount s"
  "totalPages (goTo s i a) = totalPages s"
  "track (goTo s i a) = track s"
  "allCards (goTo s i a) = allCards s"
  "registered (goTo s i a) = registered s"
  "errorLog (goTo s i a) = errorLog s"
  by (simp_all add: goTo_def Let_def split: option.splits)

lemma goTo_fresh:
  assumes "built s" "has_controls s" "pattern_ok s" "\<not> (isMoving s \<and> a)"
  shows "constructed (goTo s i a)"
proof -
  obtain tr where tr: "track s = Some tr" using assms(1) by (auto simp: built_def)
  let ?s2 = "if a then s\<lparr>currentIndex := i, isMoving := True\<rparr> else s\<lparr>currentIndex := i\<rparr>"
  have "goTo s i a = updateControls ?s2"
    using assms(4) tr by (auto simp: goTo_def Let_def)
  moreover have "built ?s2" "has_controls ?s2" "pattern_ok ?s2"
    using assms(1-3) by (simp_all add: built_def has_controls_def pattern_ok_def)
  ultimately show ?thesis by (simp add: constructed_updateControls)
qed

lemma currentIndex_goTo:
  "currentIndex (goTo s i a) = (if (isMoving s \<and> a) \<or> track s = None then currentIndex s else i)"
  by (simp add: goTo_def Let_def split: option.splits)

lemma isMoving_goTo:
  "isMoving (goTo s i a) = (if track s = None then isMoving s else isMoving s \<or> a)"
  by (auto simp: goTo_def Let_def split: option.splits)

lemma constructed_move:
  assumes "constructed s"
  shows "constructed (if isMoving s then s else goTo (s\<lparr>currentIndex := j\<rparr>) j True)"
proof (cases "isMoving s")
  case True
  then show ?thesis using assms by simp
next
  case False
  let ?s1 = "s\<lparr>currentIndex := j\<rparr>"
  have "built ?s1" "has_controls ?s1" "pattern_ok ?s1" "\<not> (isMoving ?s1 \<and> True)"
    using assms constructed_has_controls[OF assms] False
    by (simp_all add: constructed_def built_def has_controls_def pattern_ok_def)
  then have "constructed (goTo ?s1 j True)" by (rule goTo_fresh)
  then show ?thesis using False by simp
qed

lemma constructed_next: "constructed s \<Longrightarrow> constructed (Slider_next s)"
  using constructed_move[of s "toDouble (currentIndex s + step (options s))"]
  by (auto simp: Slider_next_def Let_def split: if_splits)

lemma constructed_prev: "constructed s \<Longrightarrow> constructed (Slider_prev s)"
  using constructed_move[of s "toDouble (currentIndex s - step (options s))"]
  by (auto simp: Slider_prev_def Let_def split: if_splits)

lemma constructed_goToPage: "constructed s \<Longrightarrow> constructed (goToPage page s)"
  using constructed_move[of s "toDouble (page * step (options s))"]
  by (auto simp: goToPage_def Let_def split: if_splits)

lemma constructed_resize: "constructed s \<Longrightarrow> constructed (resize s)"
  unfolding resize_def by (rule constructed_goTo)

lemma constructed_destroy: "constructed s \<Longrightarrow> constructed (destroy s)"
  by (simp add: destroy_def constructed_def built_def pagination_ok_def buttons_ok_def pattern_ok_def)

lemma config_kept [simp]:
  "options (Slider_next s) = options s" "cardCount (Slider_next s) = cardCount s"
  "options (Slider_prev s) = options s" "cardCount (Slider_prev s) = cardCount s"
  "options (goToPage page s) = options s" "cardCount (goToPage page s) = cardCount s"
  "options (resize s) = options s" "cardCount (resize s) = cardCount s"
  "options (destroy s) = options s" "cardCount (destroy s) = cardCount s"
  by (simp_all add: Slider_next_def Slider_prev_def goToPage_def resize_def destroy_def Let_def)

lemma constructed_apply_op:
  assumes "constructed s"
  shows "\<exists>s'. apply_op x s = Inr s' \<and> constructed s' \<and> options s' = options s \<and> cardCount s' = cardCount s"
proof (cases x)
  case TransitionEnd
  then show ?thesis using constructed_handleTransitionEnd[OF assms] by auto
qed (use assms in \<open>simp_all add: constructed_next constructed_prev constructed_goToPage
      constructed_resize constructed_destroy\<close>)

lemma constructed_run:
  assumes "constructed s"
  shows "\<exists>s'. run ops s = Inr s' \<and> constructed s' \<and> options s' = options s \<and> cardCount s' = cardCount s"
  using assms
proof (induction ops arbitrary: s)
  case Nil
  then show ?case by simp
next
  case (Cons x xs)
  from constructed_apply_op[OF Cons.prems, of x] obtain s1 where
    s1: "apply_op x s = Inr s1" "constructed s1" "options s1 = options s" "cardCount s1 = cardCount s"
    by blast
  from Cons.IH[OF s1(2)] s1 show ?case by auto
qed

lemma init_success:
  assumes "0 < n"
  shows "constructed (init (Some n) (initial opts))"
    and "options (init (Some n) (initial opts)) = opts"
    and "cardCount (init (Some n) (initial opts)) = int n"
    and "currentIndex (init (Some n) (initial opts)) = 0"
    and "\<not> isMoving (init (Some n) (initial opts))"
    and "registered (init (Some n) (initial opts))"
    and "errorLog (init (Some n) (initial opts)) = []"
    and "allCards (init (Some n) (initial opts)) =
          (if infinite_opt opts
           then map (\<lambda>p. Clone (p mod int n) p) [0..visible opts + step opts * 10 - 1] else [])"
proof -
  let ?s1 = "(initial opts)\<lparr>cardCount := int n, totalPages := ceil_quot (int n) (step opts)\<rparr>"
  have f: "findElements (Some n) (initial opts) = Inr ?s1"
    using assms by (simp add: findElements_def initial_def Let_def)
  let ?d = "buildDOM ?s1"
  have d: "?d = ?s1\<lparr>track := Some [], prevBtn := Some False, nextBtn := Some False,
                  pageIndicator := Some [], dots := Some (replicate (nat (totalPages ?s1)) False)\<rparr>"
    by (simp add: buildDOM_def buildControls_def buildDots_def dotsLoop_eq initial_def)
  let ?cards = "if infinite_opt opts
           then map (\<lambda>p. Clone (js_rem p (int n)) p) [0..visible opts + step opts * 10 - 1] else []"
  let ?tr = "if infinite_opt opts then ?cards else map Original [0..<n]"
  have c: "createInfiniteLoop ?d = Inr (?d\<lparr>track := Some ?tr, allCards := ?cards\<rparr>)"
    unfolding d by (simp add: createInfiniteLoop_def Let_def createLoop_eq initial_def)
  let ?s2 = "?d\<lparr>track := Some ?tr, allCards := ?cards\<rparr>"
  have i: "init (Some n) (initial opts) = (updateControls (goTo ?s2 0 False))\<lparr>registered := True\<rparr>"
    by (simp add: init_def f c)
  have cards: "?cards = (if infinite_opt opts
           then map (\<lambda>p. Clone (p mod int n) p) [0..visible opts + step opts * 10 - 1] else [])"
    using assms by (simp add: js_rem_nonneg)
  have b: "built ?s2" unfolding d using assms by (simp add: built_def initial_def)
  have h: "has_controls ?s2" unfolding d by (simp add: has_controls_def initial_def)
  have p: "pattern_ok ?s2"
    unfolding pattern_ok_nth d using assms by (simp add: initial_def js_rem_nonneg)
  have g: "constructed (goTo ?s2 0 False)" using b h p by (rule goTo_fresh) simp
  have "constructed (updateControls (goTo ?s2 0 False))"
    using g constructed_has_controls[OF g]
    by (intro constructed_updateControls) (simp_all add: constructed_def)
  then show "constructed (init (Some n) (initial opts))"
    unfolding i by (simp add: constructed_def built_def pagination_ok_def buttons_ok_def pattern_ok_def)
  show "options (init (Some n) (initial opts)) = opts"
    unfolding i d by (simp add: initial_def)
  show "cardCount (init (Some n) (initial opts)) = int n"
    unfolding i d by (simp add: initial_def)
  show "currentIndex (init (Some n) (initial opts)) = 0"
    unfolding i d by (simp add: currentIndex_goTo initial_def)
  show "\<not> isMoving (init (Some n) (initial opts))"
    unfolding i d by (simp add: isMoving_goTo initial_def)
  show "registered (init (Some n) (initial opts))"
    unfolding i by simp
  show "errorLog (init (Some n) (initial opts)) = []"
    unfolding i d by (simp add: initial_def)
  show "allCards (init (Some n) (initial opts)) =
          (if infinite_opt opts
           then map (\<lambda>p. Clone (p mod int n) p) [0..visible opts + step opts * 10 - 1] else [])"
    unfolding i d using cards by (simp add: initial_def)
qed

section \<open>Completed moves\<close>

lemma handleTransitionEnd_track:
  assumes "track s \<noteq> None"
  shows "\<exists>s'. handleTransitionEnd s = Inr s' \<and> currentIndex s' = currentIndex s \<and>
     \<not> isMoving s' \<and> options s' = options s \<and> track s' \<noteq> None"
proof -
  obtain tr where "track (s\<lparr>isMoving := False\<rparr>) = Some tr" using assms by auto
  from ensureEnoughCards_eq[OF this] assms show ?thesis
    by (auto simp: handleTransitionEnd_def Let_def)
qed

lemma currentIndex_moves:
  "\<not> isMoving s \<Longrightarrow>
     currentIndex (Slider_next s) = toDouble (currentIndex s + step (options s))"
  "\<not> isMoving s \<Longrightarrow>
     currentIndex (Slider_prev s) = toDouble (currentIndex s - step (options s))"
  "\<not> isMoving s \<Longrightarrow> currentIndex (goToPage page s) = toDouble (page * step (options s))"
  by (simp_all add: Slider_next_def Slider_prev_def goToPage_def Let_def currentIndex_goTo)

lemma track_moves [simp]:
  "track (Slider_next s) = track s" "track (Slider_prev s) = track s"
  "track (goToPage page s) = track s"
  by (simp_all add: Slider_next_def Slider_prev_def goToPage_def Let_def)

lemma allCards_moves [simp]:
  "allCards (Slider_next s) = allCards s" "allCards (Slider_prev s) = allCards s"
  "allCards (goToPage page s) = allCards s"
  by (simp_all add: Slider_next_def Slider_prev_def goToPage_def Let_def)

text \<open>Moves are exact as long as the cursor stays below \<open>2^53\<close> in magnitude.\<close>

lemma nexts_index:
  assumes "track s \<noteq> None" "\<not> isMoving s" "0 \<le> step (options s)"
    and "- (2 ^ 53) < currentIndex s" "currentIndex s + int k * step (options s) < 2 ^ 53"
  shows "\<exists>s'. nexts k s = Inr s' \<and> currentIndex s' = currentIndex s + int k * step (options s) \<and>
     \<not> isMoving s' \<and> options s' = options s \<and> track s' \<noteq> None"
  using assms
proof (induction k arbitrary: s)
  case 0
  then show ?case by simp
next
  case (Suc k)
  let ?st = "step (options s)"
  have ks: "0 \<le> int k * ?st" using Suc.prems(3) by simp
  have up: "currentIndex s + ?st + int k * ?st < 2 ^ 53"
    using Suc.prems(5) by (simp add: algebra_simps)
  have "\<bar>currentIndex s + ?st\<bar> < 2 ^ 53" using Suc.prems(3,4) ks up by linarith
  then have n: "currentIndex (Slider_next s) = currentIndex s + ?st"
    using Suc.prems(2) by (simp add: currentIndex_moves toDouble_exact)
  have "track (Slider_next s) \<noteq> None" using Suc.prems by simp
  from handleTransitionEnd_track[OF this] obtain s1 where
    s1: "handleTransitionEnd (Slider_next s) = Inr s1" "currentIndex s1 = currentIndex (Slider_next s)"
      "\<not> isMoving s1" "options s1 = options s" "track s1 \<noteq> None"
    by auto
  have "\<exists>s'. nexts k s1 = Inr s' \<and> currentIndex s' = currentIndex s1 + int k * step (options s1) \<and>
     \<not> isMoving s' \<and> options s' = options s1 \<and> track s' \<noteq> None"
    using s1 n Suc.prems(3,4) up by (intro Suc.IH) simp_all
  then obtain s' where
    s': "nexts k s1 = Inr s'" "currentIndex s' = currentIndex s1 + int k * step (options s1)"
      "\<not> isMoving s'" "options s' = options s1" "track s' \<noteq> None"
    by auto
  have "currentIndex s' = currentIndex s + int (Suc k) * ?st"
    using s'(2) s1(2,4) n by (simp add: algebra_simps)
  then show ?case using s1 s' by simp
qed

lemma prevs_index:
  assumes "track s \<noteq> None" "\<not> isMoving s" "0 \<le> step (options s)"
    and "currentIndex s < 2 ^ 53" "- (2 ^ 53) < currentIndex s - int k * step (options s)"
  shows "\<exists>s'. prevs k s = Inr s' \<and> currentIndex s' = currentIndex s - int k * step (options s) \<and>
     \<not> isMoving s' \<and> options s' = options s \<and> track s' \<noteq> None"
  using assms
proof (induction k arbitrary: s)
  case 0
  then show ?case by simp
next
  case (Suc k)
  let ?st = "step (options s)"
  have ks: "0 \<le> int k * ?st" using Suc.prems(3) by simp
  have lo: "- (2 ^ 53) < currentIndex s - ?st - int k * ?st"
    using Suc.prems(5) by (simp add: algebra_simps)
  have "\<bar>currentIndex s - ?st\<bar> < 2 ^ 53" using Suc.prems(3,4) ks lo by linarith
  then have n: "currentIndex (Slider_prev s) = currentIndex s - ?st"
    using Suc.prems(2) by (simp add: currentIndex_moves toDouble_exact)
  have "track (Slider_prev s) \<noteq> None" using Suc.prems by simp
  from handleTransitionEnd_track[OF this] obtain s1 where
    s1: "handleTransitionEnd (Slider_prev s) = Inr s1" "currentIndex s1 = currentIndex (Slider_prev s)"
      "\<not> isMoving s1" "options s1 = options s" "track s1 \<noteq> None"
    by auto
  have "\<exists>s'. prevs k s1 = Inr s' \<and> currentIndex s' = currentIndex s1 - int k * step (options s1) \<and>
     \<not> isMoving s' \<and> options s' = options s1 \<and> track s' \<noteq> None"
    using s1 n Suc.prems(3,4) lo by (intro Suc.IH) simp_all
  then obtain s' where
    s': "prevs k s1 = Inr s'" "currentIndex s' = currentIndex s1 - int k * step (options s1)"
      "\<not> isMoving s'" "options s' = options s1" "track s' \<noteq> None"
    by auto
  have "currentIndex s' = currentIndex s - int (Suc k) * ?st"
    using s'(2) s1(2,4) n by (simp add: algebra_simps)
  then show ?case using s1 s' by simp
qed

section \<open>Step round trip\<close>

text \<open>
  C2. The claim is that from a cursor at \<open>0\<close>, for every \<open>k\<close> and every positive step,
  \<open>k\<close> completed calls of \<open>next()\<close> leave the cursor at \<open>k * step\<close> and \<open>k\<close> completed
  calls of \<open>prev()\<close> bring it back to \<open>0\<close>. The cursor is a double: on a finite rail of
  one card with step \<open>2^53 - 1\<close>, three completed calls of \<open>next()\<close> leave the cursor at
  27021597764222972 where \<open>3 * step\<close> is 27021597764222973, and three completed calls of
  \<open>prev()\<close> from there end at \<open>-2\<close>.
\<close>

theorem step_round_trip_rounds:
  "(case Slider_new \<lparr>visible = 6, step = 9007199254740991, infinite_opt = False\<rparr> (Some 1) of
      Inl e \<Rightarrow> None
    | Inr s \<Rightarrow>
        (case nexts 3 s of
           Inl e \<Rightarrow> None
         | Inr s1 \<Rightarrow>
             (case prevs 3 s1 of
                Inl e \<Rightarrow> None
              | Inr s2 \<Rightarrow>
                  Some (currentIndex s, currentIndex s1, 3 * step (options s), currentIndex s2))))
   = Some (0, 27021597764222972, 27021597764222973, - 2)"
  by code_simp

text \<open>
  C2, as the code has it. From a cursor at \<open>0\<close>, for every \<open>k\<close> and every positive step
  with \<open>k * step\<close> below \<open>2^53\<close>, \<open>k\<close> calls of \<open>next()\<close>, each followed by the completion
  handler, run without error and leave the cursor at \<open>k * step\<close>; \<open>k\<close> calls of
  \<open>prev()\<close> from there, each followed by the completion handler, bring it back to \<open>0\<close>.
  This holds on every slider that has its track.
\<close>

theorem step_round_trip:
  assumes "track s \<noteq> None" and "\<not> isMoving s" and "currentIndex s = 0"
    and "0 < step (options s)" and "int k * step (options s) < 2 ^ 53"
  shows "\<exists>s1. nexts k s = Inr s1 \<and> currentIndex s1 = int k * step (options s) \<and>
           (\<exists>s2. prevs k s1 = Inr s2 \<and> currentIndex s2 = 0)"
proof -
  have "\<exists>s'. nexts k s = Inr s' \<and> currentIndex s' = currentIndex s + int k * step (options s) \<and>
     \<not> isMoving s' \<and> options s' = options s \<and> track s' \<noteq> None"
    using assms by (intro nexts_index) simp_all
  then obtain s1 where
    s1: "nexts k s = Inr s1" "currentIndex s1 = currentIndex s + int k * step (options s)"
      "\<not> isMoving s1" "options s1 = options s" "track s1 \<noteq> None"
    by auto
  have "\<exists>s'. prevs k s1 = Inr s' \<and> currentIndex s' = currentIndex s1 - int k * step (options s1) \<and>
     \<not> isMoving s' \<and> options s' = options s1 \<and> track s' \<noteq> None"
    using s1 assms(3-5) by (intro prevs_index) simp_all
  then obtain s2 where
    s2: "prevs k s1 = Inr s2" "currentIndex s2 = currentIndex s1 - int k * step (options s1)"
    by auto
  show ?thesis using s1 s2 assms(3) by simp
qed

lemma exampleSlider_facts:
  "track exampleSlider \<noteq> None" "\<not> isMoving exampleSlider" "currentIndex exampleSlider = 0"
  "options exampleSlider = exampleOptions" "constructed exampleSlider"
  using init_success[of 9 exampleOptions]
  by (simp_all add: exampleSlider_def constructed_def built_def)

theorem step_round_trip_witness:
  "track exampleSlider \<noteq> None \<and> \<not> isMoving exampleSlider \<and> currentIndex exampleSlider = 0 \<and>
   0 < step (options exampleSlider) \<and> int 4 * step (options exampleSlider) < 2 ^ 53 \<and>
   (\<exists>s1. nexts 4 exampleSlider = Inr s1 \<and> currentIndex s1 = 12 \<and>
           (\<exists>s2. prevs 4 s1 = Inr s2 \<and> currentIndex s2 = 0))"
  using step_round_trip[of exampleSlider 4] exampleSlider_facts
  by (simp add: exampleOptions_def)

section \<open>Busy rejection\<close>

text \<open>
  C5. While a move is in flight (\<open>isMoving\<close>), \<open>next()\<close>, \<open>prev()\<close> and
  \<open>goToPage(page)\<close> return the state they were given: the cursor, the flag, the
  materialized sequence and every other field are unchanged. The state holds no queue of
  pending calls, so the rejected call leaves nothing behind to run later: the completion
  handler that follows does what it would have done without the call.
\<close>

theorem busy_rejection:
  assumes "isMoving s"
  shows "Slider_next s = s \<and> Slider_prev s = s \<and> goToPage page s = s \<and>
         handleTransitionEnd (Slider_next s) = handleTransitionEnd s \<and>
         handleTransitionEnd (Slider_prev s) = handleTransitionEnd s \<and>
         handleTransitionEnd (goToPage page s) = handleTransitionEnd s"
  using assms by (simp add: Slider_next_def Slider_prev_def goToPage_def)

lemma isMoving_after_next: "isMoving (Slider_next exampleSlider)"
  using exampleSlider_facts by (simp add: Slider_next_def Let_def isMoving_goTo)

theorem busy_rejection_witness:
  "isMoving (Slider_next exampleSlider) \<and>
   currentIndex (Slider_next exampleSlider) = 3 \<and>
   Slider_next (Slider_next exampleSlider) = Slider_next exampleSlider \<and>
   Slider_prev (Slider_next exampleSlider) = Slider_next exampleSlider \<and>
   goToPage 2 (Slider_next exampleSlider) = Slider_next exampleSlider \<and>
   currentIndex (Slider_next (Slider_next exampleSlider)) = 3"
proof -
  have i: "currentIndex (Slider_next exampleSlider) = 3"
    using exampleSlider_facts
    by (simp add: currentIndex_moves exampleOptions_def toDouble_exact)
  from busy_rejection[OF isMoving_after_next, of 2] isMoving_after_next i
  show ?thesis by simp
qed

section \<open>No clamping of the cursor\<close>

text \<open>
  C7. The claim is that \<open>goToPage(page)\<close> sets the cursor to \<open>page * step\<close> for every
  integer page. The product is a double: on the rail of nine cards with step three,
  \<open>goToPage(3002399751580331)\<close> leaves the cursor at 9007199254740992 where
  \<open>page * step\<close> is 9007199254740993.
\<close>

theorem no_clamping_rounds:
  "(currentIndex (goToPage 3002399751580331 exampleSlider),
    3002399751580331 * step (options exampleSlider), isMoving exampleSlider)
   = (9007199254740992, 9007199254740993, False)"
  by code_simp

text \<open>
  C7, as the code has it. When no move is in flight, \<open>goToPage(page)\<close> sets the cursor to
  \<open>page * step\<close> for every integer \<open>page\<close> with \<open>page * step\<close> below \<open>2^53\<close> in
  magnitude, with no check against \<open>totalPages\<close> or the length of the sequence; and
  \<open>prev()\<close> sets it to \<open>currentIndex - step\<close> whenever that is below \<open>2^53\<close> in
  magnitude, with no check against \<open>0\<close>. From a cursor at \<open>0\<close> with a positive step,
  \<open>k > 0\<close> completed calls of \<open>prev()\<close> with \<open>k * step\<close> below \<open>2^53\<close> leave the cursor
  at \<open>-(k * step)\<close>, which is negative.
\<close>

theorem no_clamping:
  assumes "\<not> isMoving s"
  shows "(\<bar>page * step (options s)\<bar> < 2 ^ 53 \<longrightarrow>
            currentIndex (goToPage page s) = page * step (options s)) \<and>
         (\<bar>currentIndex s - step (options s)\<bar> < 2 ^ 53 \<longrightarrow>
            currentIndex (Slider_prev s) = currentIndex s - step (options s)) \<and>
         (track s \<noteq> None \<and> currentIndex s = 0 \<and> 0 < step (options s) \<and> 0 < k \<and>
          int k * step (options s) < 2 ^ 53 \<longrightarrow>
           (\<exists>s'. prevs k s = Inr s' \<and> currentIndex s' = - (int k * step (options s)) \<and>
                  currentIndex s' < 0))"
proof -
  have "\<exists>s'. prevs k s = Inr s' \<and> currentIndex s' = - (int k * step (options s)) \<and> currentIndex s' < 0"
    if h: "track s \<noteq> None" "currentIndex s = 0" "0 < step (options s)" "0 < k"
      "int k * step (options s) < 2 ^ 53"
  proof -
    have "\<exists>s'. prevs k s = Inr s' \<and> currentIndex s' = currentIndex s - int k * step (options s) \<and>
       \<not> isMoving s' \<and> options s' = options s \<and> track s' \<noteq> None"
      using h assms by (intro prevs_index) simp_all
    then obtain s' where
      s': "prevs k s = Inr s'" "currentIndex s' = currentIndex s - int k * step (options s)"
      by auto
    have "0 < int k * step (options s)" using h(3,4) by simp
    then show ?thesis using s' h(2) by simp
  qed
  then show ?thesis using assms by (simp add: currentIndex_moves toDouble_exact)
qed

theorem no_clamping_witness:
  "\<not> isMoving exampleSlider \<and>
   \<bar>1000 * step (options exampleSlider)\<bar> < 2 ^ 53 \<and>
   currentIndex (goToPage 1000 exampleSlider) = 3000 \<and>
   \<bar>currentIndex exampleSlider - step (options exampleSlider)\<bar> < 2 ^ 53 \<and>
   currentIndex (Slider_prev exampleSlider) = - 3 \<and>
   track exampleSlider \<noteq> None \<and> currentIndex exampleSlider = 0 \<and>
   0 < step (options exampleSlider) \<and> (0::nat) < 2 \<and>
   int 2 * step (options exampleSlider) < 2 ^ 53 \<and>
   (\<exists>s'. prevs 2 exampleSlider = Inr s' \<and> currentIndex s' = - 6 \<and> currentIndex s' < 0)"
  using no_clamping[of exampleSlider 1000 2] exampleSlider_facts
  by (simp add: exampleOptions_def)

section \<open>Construction\<close>

lemma Slider_new_success:
  assumes "0 < n" "Slider_new opts (Some n) = Inr s0"
  shows "constructed s0" "options s0 = opts" "cardCount s0 = int n" "currentIndex s0 = 0"
    "\<not> isMoving s0"
  using assms init_success[of n opts] by (auto simp: Slider_new_def)

text \<open>
  C3. The claim is that constructing a slider over an empty card row raises an error to
  the caller. It does not: \<open>_findElements\<close> throws \<open>Error('No cards found')\<close>, and the
  \<open>try\<close>/\<open>catch\<close> of \<open>_init\<close> catches it and logs it, so that \<open>new Slider(...)\<close>
  returns normally. With the default options and an empty row the constructor returns the
  object below, the error in its log.
\<close>

theorem empty_construction_returns:
  "Slider_new \<lparr>visible = 6, step = 3, infinite_opt = True\<rparr> (Some 0) =
     Inr \<lparr>options = \<lparr>visible = 6, step = 3, infinite_opt = True\<rparr>, cardCount = 0,
          totalPages = 0, track = None, allCards = [], prevBtn = None, nextBtn = None,
          pageIndicator = None, dots = None, currentIndex = 0, isMoving = False,
          registered = False, errorLog = [Error ''No cards found'']\<rparr>"
  by (simp add: Slider_new_def init_def findElements_def initial_def)

text \<open>
  C3, as the code has it. For every configuration, constructing over an empty card row
  makes \<open>_findElements\<close> throw \<open>Error('No cards found')\<close>; \<open>_init\<close> catches and logs it,
  the constructor returns normally, and the object it returns has no materialized
  sequence: \<open>allCards\<close> is empty, no track was built and no clone appended, and the
  object is not registered on its section.
\<close>

theorem empty_construction_logged:
  "findElements (Some 0) (initial opts) = Inl (Error ''No cards found'', initial opts) \<and>
   Slider_new opts (Some 0) = Inr ((initial opts)\<lparr>errorLog := [Error ''No cards found'']\<rparr>) \<and>
   allCards ((initial opts)\<lparr>errorLog := [Error ''No cards found'']\<rparr>) = [] \<and>
   track ((initial opts)\<lparr>errorLog := [Error ''No cards found'']\<rparr>) = None \<and>
   \<not> registered ((initial opts)\<lparr>errorLog := [Error ''No cards found'']\<rparr>)"
  by (simp add: Slider_new_def init_def findElements_def initial_def)

section \<open>Pagination\<close>

lemma js_rem_sign:
  "0 < b \<Longrightarrow> js_rem a b = (if 0 \<le> a then a mod b else - ((- a) mod b))"
  by (cases "a = 0") (auto simp: js_rem_def)

text \<open>
  What the code computes. After a successful construction with a positive step and after
  any sequence of operations, no operation fails, \<open>totalPages\<close> is
  \<open>ceil(cardCount / step)\<close> and the page indicator reads
  \<open>"{currentPage} / {totalPages}"\<close> with \<open>currentPage = floor(logicalIndex / step) + 1\<close>
  and \<open>logicalIndex = currentIndex % cardCount\<close>, the remainder being the source's \<open>%\<close>.
\<close>

lemma pagination_invariant:
  assumes "0 < n" and "Slider_new opts (Some n) = Inr s0"
  shows "\<exists>s. run ops s0 = Inr s \<and> cardCount s = int n \<and> options s = opts \<and>
            totalPages s = ceil_quot (cardCount s) (step (options s)) \<and>
            pageIndicator s =
              Some (numberToString
                      (floor_quot (js_rem (currentIndex s) (cardCount s)) (step (options s)) + 1)
                    @ '' / '' @ numberToString (totalPages s)) \<and>
            js_rem (currentIndex s) (cardCount s) =
              (if 0 \<le> currentIndex s then currentIndex s mod cardCount s
               else - ((- currentIndex s) mod cardCount s))"
proof -
  have c0: "constructed s0" and o0: "options s0 = opts" and n0: "cardCount s0 = int n"
    using Slider_new_success[OF assms] by simp_all
  from constructed_run[OF c0, of ops] obtain s where
    s: "run ops s0 = Inr s" "constructed s" "options s = options s0" "cardCount s = cardCount s0"
    by blast
  have "totalPages s = ceil_quot (cardCount s) (step (options s))"
    using s(2) by (simp add: constructed_def built_def)
  moreover have "pageIndicator s =
      Some (numberToString
              (floor_quot (js_rem (currentIndex s) (cardCount s)) (step (options s)) + 1)
            @ '' / '' @ numberToString (totalPages s))"
    using s(2) by (simp add: constructed_def pagination_ok_def pageLabel_def currentPage_of_def)
  moreover have "js_rem (currentIndex s) (cardCount s) =
      (if 0 \<le> currentIndex s then currentIndex s mod cardCount s
       else - ((- currentIndex s) mod cardCount s))"
    using s(4) n0 assms(1) by (intro js_rem_sign) simp
  ultimately show ?thesis using s(1,3,4) o0 n0 by auto
qed

text \<open>
  On a cursor that is not negative the two remainders agree, and the label is the one the
  specification words; so it is in the three examples of the specification.
\<close>

lemma pagination_label_nonneg:
  assumes "0 < n" and "Slider_new opts (Some n) = Inr s0"
  shows "\<exists>s. run ops s0 = Inr s \<and>
           (0 \<le> currentIndex s \<longrightarrow>
              pageIndicator s =
                Some (spec_pageLabel (currentIndex s) (cardCount s) (step (options s))))"
proof -
  from pagination_invariant[OF assms, of ops] obtain s where
    s: "run ops s0 = Inr s"
      "totalPages s = ceil_quot (cardCount s) (step (options s))"
      "pageIndicator s =
         Some (numberToString
                 (floor_quot (js_rem (currentIndex s) (cardCount s)) (step (options s)) + 1)
               @ '' / '' @ numberToString (totalPages s))"
      "js_rem (currentIndex s) (cardCount s) =
         (if 0 \<le> currentIndex s then currentIndex s mod cardCount s
          else - ((- currentIndex s) mod cardCount s))"
    by blast
  have "pageIndicator s = Some (spec_pageLabel (currentIndex s) (cardCount s) (step (options s)))"
    if "0 \<le> currentIndex s"
    using that s(2,3,4) by (simp add: spec_pageLabel_def)
  then show ?thesis using s(1) by blast
qed

lemma pagination_examples:
  "pageLabel (currentPage_of 0 9 3) (ceil_quot 9 3) = ''1 / 3''"
  "pageLabel (currentPage_of 3 9 3) (ceil_quot 9 3) = ''2 / 3''"
  "pageLabel (currentPage_of 9 9 3) (ceil_quot 9 3) = ''1 / 3''"
  by (simp_all add: pageLabel_def currentPage_of_def js_rem_def floor_quot_div ceil_quot_div
      numberToString_def showNat.simps)

text \<open>
  C4. The claim is the label of the specification, with
  \<open>logicalIndex = currentIndex mod cardCount\<close>, in every state after any operation. The
  previous button of an infinite slider is always enabled, and one \<open>prev()\<close> on the
  fresh rail of nine cards with step three moves the cursor to \<open>-3\<close>. There the claim
  gives \<open>"3 / 3"\<close> (\<open>-3 mod 9 = 6\<close>), and the code, whose \<open>%\<close> gives \<open>-3\<close>, shows
  \<open>"0 / 3"\<close> and marks no dot active.
\<close>

theorem pagination_label_negative_cursor:
  "(case run [Prev] exampleSlider of
      Inl e \<Rightarrow> None
    | Inr s \<Rightarrow>
        Some (currentIndex s, pageIndicator s, dots s,
              spec_pageLabel (currentIndex s) (cardCount s) (step (options s))))
   = Some (- 3, Some ''0 / 3'', Some [False, False, False], ''3 / 3'')"
  by code_simp

section \<open>Buttons\<close>



section \<open>Initial like counts\<close>

lemma randomCount_range:
  assumes "mono fl" "fl 0 = 0" "fl 490 = 490" "0 \<le> r" "r < 1"
  shows "10 \<le> randomCount fl r \<and> randomCount fl r \<le> 500"
proof -
  have lo: "0 \<le> r * 490" using assms(4) by simp
  have hi: "r * 490 \<le> 490" using assms(5) by simp
  have "fl 0 \<le> fl (r * 490)" using assms(1) lo by (rule monoD)
  then have a: "0 \<le> fl (r * 490)" by (simp only: assms(2))
  have "fl (r * 490) \<le> fl 490" using assms(1) hi by (rule monoD)
  then have b: "fl (r * 490) \<le> 490" by (simp only: assms(3))
  have "\<lfloor>0::real\<rfloor> \<le> \<lfloor>fl (r * 490)\<rfloor>" using a by (rule floor_mono)
  then have a': "0 \<le> \<lfloor>fl (r * 490)\<rfloor>" by simp
  have "\<lfloor>fl (r * 490)\<rfloor> \<le> \<lfloor>490::real\<rfloor>" using b by (rule floor_mono)
  then have b': "\<lfloor>fl (r * 490)\<rfloor> \<le> 490" by simp
  show ?thesis using a' b' by (simp add: randomCount_def)
qed

lemma initializeRandomCounts_keeps:
  "likeCounts contentId = Some c \<Longrightarrow>
     fst (initializeRandomCounts fl rand contentIds (likeCounts, n)) contentId = Some c"
proof (induction contentIds arbitrary: likeCounts n)
  case Nil
  then show ?case by simp
next
  case (Cons x xs)
  show ?case
  proof (cases "likeCounts x = None")
    case True
    then have "x \<noteq> contentId" using Cons.prems by auto
    then have "fst (initializeRandomCounts fl rand xs
        (likeCounts(x \<mapsto> randomCount fl (rand n)), Suc n)) contentId = Some c"
      using Cons.prems by (intro Cons.IH) simp
    with True show ?thesis by simp
  next
    case False
    have "fst (initializeRandomCounts fl rand xs (likeCounts, n)) contentId = Some c"
      using Cons.prems by (rule Cons.IH)
    with False show ?thesis by auto
  qed
qed

lemma initializeRandomCounts_assigns:
  assumes "mono fl" "fl 0 = 0" "fl 490 = 490" "\<forall>i. 0 \<le> rand i \<and> rand i < 1"
  shows "contentId \<in> set contentIds \<Longrightarrow> likeCounts contentId = None \<Longrightarrow>
     \<exists>v. fst (initializeRandomCounts fl rand contentIds (likeCounts, n)) contentId = Some v \<and>
         10 \<le> v \<and> v \<le> 500"
proof (induction contentIds arbitrary: likeCounts n)
  case Nil
  then show ?case by simp
next
  case (Cons x xs)
  show ?case
  proof (cases "x = contentId")
    case True
    let ?v = "randomCount fl (rand n)"
    have "fst (initializeRandomCounts fl rand xs (likeCounts(x \<mapsto> ?v), Suc n)) contentId = Some ?v"
      using True by (intro initializeRandomCounts_keeps) simp
    then have "fst (initializeRandomCounts fl rand (x # xs) (likeCounts, n)) contentId = Some ?v"
      using True Cons.prems(2) by simp
    moreover have "10 \<le> ?v \<and> ?v \<le> 500"
      using assms by (intro randomCount_range) simp_all
    ultimately show ?thesis by blast
  next
    case False
    then have in_xs: "contentId \<in> set xs" using Cons.prems(1) by simp
    show ?thesis
    proof (cases "likeCounts x = None")
      case True
      have "\<exists>v. fst (initializeRandomCounts fl rand xs
          (likeCounts(x \<mapsto> randomCount fl (rand n)), Suc n)) contentId = Some v \<and>
          10 \<le> v \<and> v \<le> 500"
        using in_xs False Cons.prems(2) by (intro Cons.IH) simp_all
      with True show ?thesis by simp
    next
      case False
      have "\<exists>v. fst (initializeRandomCounts fl rand xs (likeCounts, n)) contentId = Some v \<and>
          10 \<le> v \<and> v \<le> 500"
        using in_xs Cons.prems(2) by (intro Cons.IH)
      with False show ?thesis by auto
    qed
  qed
qed

lemma initializeRandomCounts_other:
  "contentId \<notin> set contentIds \<Longrightarrow>
     fst (initializeRandomCounts fl rand contentIds (likeCounts, n)) contentId = likeCounts contentId"
proof (induction contentIds arbitrary: likeCounts n)
  case Nil
  then show ?case by simp
next
  case (Cons x xs)
  have ne: "x \<noteq> contentId" and nin: "contentId \<notin> set xs" using Cons.prems by auto
  show ?case
  proof (cases "likeCounts x = None")
    case True
    have "fst (initializeRandomCounts fl rand xs
        (likeCounts(x \<mapsto> randomCount fl (rand n)), Suc n)) contentId
        = (likeCounts(x \<mapsto> randomCount fl (rand n))) contentId"
      using nin by (rule Cons.IH)
    with True ne show ?thesis by simp
  next
    case False
    have "fst (initializeRandomCounts fl rand xs (likeCounts, n)) contentId = likeCounts contentId"
      using nin by (rule Cons.IH)
    with False show ?thesis by auto
  qed
qed

text \<open>
  C9. Let every draw of \<open>Math.random\<close> lie in \<open>[0, 1)\<close>, and let the rounding of the
  product be monotone and exact on \<open>0\<close> and \<open>490\<close>, as rounding to the nearest double is.
  Then, on any store, \<open>initializeRandomCounts\<close> gives every listed id that had no count a
  count between 10 and 500 inclusive; it leaves the count of every id that had one
  unchanged; and it gives no count to an id that is not listed.
\<close>

theorem like_count_range:
  assumes "mono fl" and "fl 0 = 0" and "fl 490 = 490"
    and "\<forall>i. 0 \<le> rand i \<and> rand i < 1"
  shows "(\<forall>contentId \<in> set contentIds. likeCounts contentId = None \<longrightarrow>
            (\<exists>v. fst (initializeRandomCounts fl rand contentIds (likeCounts, n)) contentId = Some v \<and>
                 10 \<le> v \<and> v \<le> 500)) \<and>
         (\<forall>contentId c. likeCounts contentId = Some c \<longrightarrow>
            fst (initializeRandomCounts fl rand contentIds (likeCounts, n)) contentId = Some c) \<and>
         (\<forall>contentId. contentId \<notin> set contentIds \<longrightarrow>
            fst (initializeRandomCounts fl rand contentIds (likeCounts, n)) contentId
              = likeCounts contentId)"
proof (intro conjI ballI allI impI)
  fix contentId
  assume "contentId \<in> set contentIds" "likeCounts contentId = None"
  then show "\<exists>v. fst (initializeRandomCounts fl rand contentIds (likeCounts, n)) contentId = Some v \<and>
      10 \<le> v \<and> v \<le> 500"
    by (rule initializeRandomCounts_assigns[OF assms])
next
  fix contentId c
  assume "likeCounts contentId = Some c"
  then show "fst (initializeRandomCounts fl rand contentIds (likeCounts, n)) contentId = Some c"
    by (rule initializeRandomCounts_keeps)
next
  fix contentId
  assume "contentId \<notin> set contentIds"
  then show "fst (initializeRandomCounts fl rand contentIds (likeCounts, n)) contentId
      = likeCounts contentId"
    by (rule initializeRandomCounts_other)
qed

text \<open>
  On the empty store every listed id gets its count, here 255 for the draw \<open>1/2\<close>; on a
  store that holds 7 for \<open>b\<close>, \<open>b\<close> keeps it.
\<close>

theorem like_count_range_witness:
  "mono (\<lambda>x::real. x) \<and> (0::real) = 0 \<and> (490::real) = 490 \<and>
   (\<forall>i::nat. (0::real) \<le> 1 / 2 \<and> (1::real) / 2 < 1) \<and>
   ''a'' \<in> set [''a'', ''b'', ''a''] \<and> ''b'' \<in> set [''a'', ''b'', ''a''] \<and>
   ''c'' \<notin> set [''a'', ''b'', ''a''] \<and>
   fst (initializeRandomCounts (\<lambda>x. x) (\<lambda>i. 1 / 2) [''a'', ''b'', ''a''] (Map.empty, 0)) ''a''
     = Some 255 \<and>
   fst (initializeRandomCounts (\<lambda>x. x) (\<lambda>i. 1 / 2) [''a'', ''b'', ''a''] (Map.empty, 0)) ''b''
     = Some 255 \<and>
   fst (initializeRandomCounts (\<lambda>x. x) (\<lambda>i. 1 / 2) [''a'', ''b'', ''a''] (Map.empty, 0)) ''c''
     = None \<and>
   fst (initializeRandomCounts (\<lambda>x. x) (\<lambda>i. 1 / 2) [''a'', ''b'', ''a''] ([''b'' \<mapsto> 7], 0)) ''a''
     = Some 255 \<and>
   fst (initializeRandomCounts (\<lambda>x. x) (\<lambda>i. 1 / 2) [''a'', ''b'', ''a''] ([''b'' \<mapsto> 7], 0)) ''b''
     = Some 7"
proof -
  have m: "mono (\<lambda>x::real. x)" by (simp add: mono_def)
  have r: "\<forall>i::nat. (0::real) \<le> 1 / 2 \<and> (1::real) / 2 < 1" by simp
  have l: "''a'' \<in> set [''a'', ''b'', ''a'']" "''b'' \<in> set [''a'', ''b'', ''a'']"
    "''c'' \<notin> set [''a'', ''b'', ''a'']" by simp_all
  note t0 = like_count_range[of "\<lambda>x. x" "\<lambda>i. 1 / 2" "[''a'', ''b'', ''a'']" Map.empty 0, OF m _ _ r]
  note t1 = like_count_range[of "\<lambda>x. x" "\<lambda>i. 1 / 2" "[''a'', ''b'', ''a'']" "[''b'' \<mapsto> 7]" 0,
      OF m _ _ r]
  have c: "fst (initializeRandomCounts (\<lambda>x. x) (\<lambda>i. 1 / 2) [''a'', ''b'', ''a''] (Map.empty, 0)) ''c''
     = None"
    using t0 l(3) by simp
  have b7: "fst (initializeRandomCounts (\<lambda>x. x) (\<lambda>i. 1 / 2) [''a'', ''b'', ''a'']
      ([''b'' \<mapsto> 7], 0)) ''b'' = Some 7"
    using t1 by simp
  have v: "fst (initializeRandomCounts (\<lambda>x. x) (\<lambda>i. 1 / 2) [''a'', ''b'', ''a''] (Map.empty, 0)) ''a''
     = Some 255"
    "fst (initializeRandomCounts (\<lambda>x. x) (\<lambda>i. 1 / 2) [''a'', ''b'', ''a''] (Map.empty, 0)) ''b''
     = Some 255"
    "fst (initializeRandomCounts (\<lambda>x. x) (\<lambda>i. 1 / 2) [''a'', ''b'', ''a''] ([''b'' \<mapsto> 7], 0)) ''a''
     = Some 255"
    by (simp_all add: randomCount_def)
  show ?thesis
    by (intro conjI m r l c b7 v) simp_all
qed

section \<open>The active page is one of the pages\<close>

lemma ceil_as_floor:
  assumes "1 \<le> stp"
  shows "- ((- cnt) div stp) = (cnt - 1) div stp + (1::int)"
proof -
  define q where "q = (cnt - 1) div stp"
  define r where "r = (cnt - 1) mod stp"
  have r: "0 \<le> r" "r < stp" using assms by (simp_all add: r_def)
  have "cnt - 1 = stp * q + r" by (simp add: q_def r_def)
  then have "- cnt = stp * (- (q + 1)) + (stp - r - 1)" by (simp add: algebra_simps)
  then have "(- cnt) div stp = - (q + 1)"
    using r by (intro int_div_pos_eq[of _ _ _ "stp - r - 1"]) simp_all
  then show ?thesis by (simp add: q_def)
qed

lemma currentPage_range:
  assumes "1 \<le> cnt" "1 \<le> stp" "0 \<le> idx"
  shows "1 \<le> currentPage_of idx cnt stp" "currentPage_of idx cnt stp \<le> ceil_quot cnt stp"
proof -
  let ?l = "idx mod cnt"
  have l: "0 \<le> ?l" "?l \<le> cnt - 1" using assms(1) by simp_all
  have cp: "currentPage_of idx cnt stp = ?l div stp + 1"
    using assms by (simp add: currentPage_of_def js_rem_nonneg floor_quot_div)
  have "0 \<le> ?l div stp" using l(1) assms(2) by (simp add: pos_imp_zdiv_nonneg_iff)
  then show "1 \<le> currentPage_of idx cnt stp" using cp by simp
  have "?l div stp \<le> (cnt - 1) div stp" using l(2) assms(2) by (simp add: zdiv_mono1)
  moreover have "ceil_quot cnt stp = (cnt - 1) div stp + 1"
    using ceil_as_floor[OF assms(2)] by (simp add: ceil_quot_div)
  ultimately show "currentPage_of idx cnt stp \<le> ceil_quot cnt stp" using cp by simp
qed

lemma map_active:
  assumes "1 \<le> cp" "cp \<le> tp"
  shows "map (\<lambda>i. int i = cp - 1) [0..<nat tp] = (replicate (nat tp) False)[nat (cp - 1) := True]"
  using assms by (auto simp: list_eq_iff_nth_eq nth_list_update)

lemma buildDots_dots:
  "dots s \<noteq> None \<Longrightarrow> dots (buildDots s) = Some (replicate (nat (totalPages s)) False)"
  by (auto simp: buildDots_def dotsLoop_eq)

lemma buildDots_fields [simp]:
  "options (buildDots s) = options s" "cardCount (buildDots s) = cardCount s"
  "totalPages (buildDots s) = totalPages s" "currentIndex (buildDots s) = currentIndex s"
  "pageIndicator (buildDots s) = pageIndicator s"
  by (simp_all add: buildDots_def split: option.splits)

lemma updatePagination_dots:
  assumes "pageIndicator s \<noteq> None" "dots s = Some ds"
  shows "dots (updatePagination s) = Some (map (\<lambda>i. int i = currentPage s - 1) [0..<length ds])"
  using assms by (auto simp: updatePagination_def currentPage_def Let_def)

text \<open>
  C10. Take at least one card, a step of at least one and a cursor that is not negative.
  In any state whose \<open>totalPages\<close> is \<open>ceil(cardCount / step)\<close> and whose controls exist,
  the page \<open>floor((currentIndex % cardCount) / step) + 1\<close> lies between 1 and
  \<open>totalPages\<close>; \<open>_buildDots\<close> builds \<open>totalPages\<close> dots, and \<open>_updatePagination\<close> on them
  marks the dot at index \<open>currentPage - 1\<close>, which is one of them, and no other.
  The same holds of the dots of every state that a successful construction followed by
  any sequence of operations reaches with a cursor that is not negative.
\<close>

theorem active_page_in_range:
  "(1 \<le> cardCount s \<and> 1 \<le> step (options s) \<and> 0 \<le> currentIndex s \<and>
    totalPages s = ceil_quot (cardCount s) (step (options s)) \<and>
    pageIndicator s \<noteq> None \<and> dots s \<noteq> None \<longrightarrow>
      1 \<le> currentPage s \<and> currentPage s \<le> totalPages s \<and>
      nat (currentPage s - 1) < nat (totalPages s) \<and>
      dots (buildDots s) = Some (replicate (nat (totalPages s)) False) \<and>
      dots (updatePagination (buildDots s)) =
        Some ((replicate (nat (totalPages s)) False)[nat (currentPage s - 1) := True])) \<and>
   (0 < n \<and> 1 \<le> step opts \<and> Slider_new opts (Some n) = Inr s0 \<longrightarrow>
      (\<exists>s'. run ops s0 = Inr s' \<and> cardCount s' = int n \<and> options s' = opts \<and>
         totalPages s' = ceil_quot (int n) (step opts) \<and>
         (0 \<le> currentIndex s' \<longrightarrow>
            1 \<le> currentPage s' \<and> currentPage s' \<le> totalPages s' \<and>
            nat (currentPage s' - 1) < nat (totalPages s') \<and>
            dots s' =
              Some ((replicate (nat (totalPages s')) False)[nat (currentPage s' - 1) := True]))))"
proof (rule conjI; rule impI)
  assume h: "1 \<le> cardCount s \<and> 1 \<le> step (options s) \<and> 0 \<le> currentIndex s \<and>
    totalPages s = ceil_quot (cardCount s) (step (options s)) \<and>
    pageIndicator s \<noteq> None \<and> dots s \<noteq> None"
  then have r: "1 \<le> currentPage s" "currentPage s \<le> totalPages s"
    using currentPage_range[of "cardCount s" "step (options s)" "currentIndex s"]
    by (simp_all add: currentPage_def)
  have b: "dots (buildDots s) = Some (replicate (nat (totalPages s)) False)"
    using h by (simp add: buildDots_dots)
  have "dots (updatePagination (buildDots s)) =
      Some (map (\<lambda>i. int i = currentPage (buildDots s) - 1)
              [0..<length (replicate (nat (totalPages s)) False)])"
    using h b by (intro updatePagination_dots) simp_all
  then have u: "dots (updatePagination (buildDots s)) =
      Some ((replicate (nat (totalPages s)) False)[nat (currentPage s - 1) := True])"
    using map_active[OF r] by (simp add: currentPage_def)
  show "1 \<le> currentPage s \<and> currentPage s \<le> totalPages s \<and>
      nat (currentPage s - 1) < nat (totalPages s) \<and>
      dots (buildDots s) = Some (replicate (nat (totalPages s)) False) \<and>
      dots (updatePagination (buildDots s)) =
        Some ((replicate (nat (totalPages s)) False)[nat (currentPage s - 1) := True])"
    using r b u by simp
next
  assume h: "0 < n \<and> 1 \<le> step opts \<and> Slider_new opts (Some n) = Inr s0"
  then have c0: "constructed s0" and o0: "options s0 = opts" and n0: "cardCount s0 = int n"
    using Slider_new_success[of n opts s0] by simp_all
  from constructed_run[OF c0, of ops] obtain s' where
    s': "run ops s0 = Inr s'" "constructed s'" "options s' = opts" "cardCount s' = int n"
    using o0 n0 by auto
  have tp: "totalPages s' = ceil_quot (int n) (step opts)"
    using s'(2-4) by (simp add: constructed_def built_def)
  have d: "dots s' = Some (map (\<lambda>i. int i = currentPage s' - 1) [0..<nat (totalPages s')])"
    using s'(2) by (simp add: constructed_def pagination_ok_def currentPage_def)
  have "1 \<le> currentPage s' \<and> currentPage s' \<le> totalPages s' \<and>
      nat (currentPage s' - 1) < nat (totalPages s') \<and>
      dots s' = Some ((replicate (nat (totalPages s')) False)[nat (currentPage s' - 1) := True])"
    if "0 \<le> currentIndex s'"
  proof -
    have r: "1 \<le> currentPage s'" "currentPage s' \<le> totalPages s'"
      using currentPage_range[of "int n" "step opts" "currentIndex s'"] h that tp s'(3,4)
      by (simp_all add: currentPage_def)
    show ?thesis using r d map_active[OF r] by simp
  qed
  then show "\<exists>s'. run ops s0 = Inr s' \<and> cardCount s' = int n \<and> options s' = opts \<and>
         totalPages s' = ceil_quot (int n) (step opts) \<and>
         (0 \<le> currentIndex s' \<longrightarrow>
            1 \<le> currentPage s' \<and> currentPage s' \<le> totalPages s' \<and>
            nat (currentPage s' - 1) < nat (totalPages s') \<and>
            dots s' =
              Some ((replicate (nat (totalPages s')) False)[nat (currentPage s' - 1) := True]))"
    using s' tp by blast
qed

text \<open>
  On the rail of nine cards with step three: at cursor 7 the page is 3 and the third of
  the three dots is marked; after \<open>goToPage(2)\<close> the cursor is 6 and the third dot is
  marked.
\<close>

theorem active_page_in_range_witness:
  "1 \<le> cardCount (exampleSlider\<lparr>currentIndex := 7\<rparr>) \<and>
   1 \<le> step (options (exampleSlider\<lparr>currentIndex := 7\<rparr>)) \<and>
   0 \<le> currentIndex (exampleSlider\<lparr>currentIndex := 7\<rparr>) \<and>
   totalPages (exampleSlider\<lparr>currentIndex := 7\<rparr>) =
     ceil_quot (cardCount (exampleSlider\<lparr>currentIndex := 7\<rparr>))
       (step (options (exampleSlider\<lparr>currentIndex := 7\<rparr>))) \<and>
   pageIndicator (exampleSlider\<lparr>currentIndex := 7\<rparr>) \<noteq> None \<and>
   dots (exampleSlider\<lparr>currentIndex := 7\<rparr>) \<noteq> None \<and>
   currentPage (exampleSlider\<lparr>currentIndex := 7\<rparr>) = 3 \<and>
   totalPages (exampleSlider\<lparr>currentIndex := 7\<rparr>) = 3 \<and>
   dots (buildDots (exampleSlider\<lparr>currentIndex := 7\<rparr>)) = Some [False, False, False] \<and>
   dots (updatePagination (buildDots (exampleSlider\<lparr>currentIndex := 7\<rparr>)))
     = Some [False, False, True] \<and>
   (0::nat) < 9 \<and> 1 \<le> step exampleOptions \<and>
   Slider_new exampleOptions (Some 9) = Inr exampleSlider \<and>
   (\<exists>s'. run [GoToPage 2, TransitionEnd] exampleSlider = Inr s' \<and> currentIndex s' = 6 \<and>
      currentPage s' = 3 \<and> totalPages s' = 3 \<and> dots s' = Some [False, False, True])"
proof -
  let ?s = "exampleSlider\<lparr>currentIndex := 7\<rparr>"
  have a: "1 \<le> cardCount ?s" "1 \<le> step (options ?s)" "0 \<le> currentIndex ?s"
    "totalPages ?s = ceil_quot (cardCount ?s) (step (options ?s))"
    "pageIndicator ?s \<noteq> None" "dots ?s \<noteq> None"
    by code_simp+
  have v: "currentPage ?s = 3" "totalPages ?s = 3" by code_simp+
  have l: "(replicate (nat 3) False)[nat (3 - 1) := True] = [False, False, True]"
    "replicate (nat 3) False = [False, False, False]"
    by (simp_all add: numeral_3_eq_3 numeral_2_eq_2)
  note t = active_page_in_range[of ?s 9 exampleOptions exampleSlider "[GoToPage 2, TransitionEnd]"]
  have ta: "dots (buildDots ?s) = Some (replicate (nat (totalPages ?s)) False)"
    "dots (updatePagination (buildDots ?s)) =
      Some ((replicate (nat (totalPages ?s)) False)[nat (currentPage ?s - 1) := True])"
    using t a by blast+
  have da: "dots (buildDots ?s) = Some [False, False, False]"
    "dots (updatePagination (buildDots ?s)) = Some [False, False, True]"
    using ta l by (simp_all only: v)
  have b: "(0::nat) < 9" "1 \<le> step exampleOptions"
    "Slider_new exampleOptions (Some 9) = Inr exampleSlider"
    by (simp_all add: exampleOptions_def exampleSlider_def Slider_new_def)
  from t b obtain s' where
    s': "run [GoToPage 2, TransitionEnd] exampleSlider = Inr s'" "cardCount s' = int 9"
      "options s' = exampleOptions" "totalPages s' = ceil_quot (int 9) (step exampleOptions)"
      "0 \<le> currentIndex s' \<longrightarrow>
         dots s' = Some ((replicate (nat (totalPages s')) False)[nat (currentPage s' - 1) := True])"
    by blast
  have tr: "track (goToPage 2 exampleSlider) \<noteq> None" using exampleSlider_facts by simp
  from handleTransitionEnd_track[OF tr] s'(1) exampleSlider_facts
  have i: "currentIndex s' = 6"
    by (auto simp: currentIndex_moves exampleOptions_def toDouble_exact)
  have tp: "totalPages s' = 3" using s'(4) by (simp add: exampleOptions_def ceil_quot_div)
  have cp: "currentPage s' = 3"
    by (simp add: currentPage_def currentPage_of_def i s'(2,3) exampleOptions_def js_rem_def
        floor_quot_div)
  have "dots s' = Some ((replicate (nat (totalPages s')) False)[nat (currentPage s' - 1) := True])"
    using s'(5) i by simp
  then have db: "dots s' = Some [False, False, True]" using l by (simp only: tp cp)
  have e: "\<exists>s'. run [GoToPage 2, TransitionEnd] exampleSlider = Inr s' \<and> currentIndex s' = 6 \<and>
      currentPage s' = 3 \<and> totalPages s' = 3 \<and> dots s' = Some [False, False, True]"
    using s'(1) i cp tp db by blast
  show ?thesis
    by (intro conjI a v da b e)
qed

section \<open>Materialization\<close>

lemma handleTransitionEnd_grows:
  assumes "constructed s" "infinite_opt (options s)"
  shows "\<exists>s'. handleTransitionEnd s = Inr s' \<and> constructed s' \<and> \<not> isMoving s' \<and>
     options s' = options s \<and> cardCount s' = cardCount s \<and> currentIndex s' = currentIndex s \<and>
     allCards s' = allCards s @
       (if int (length (allCards s)) - currentIndex s - visible (options s) < step (options s) * 3
        then batch (cardCount s) (int (length (allCards s))) else [])"
proof -
  from constructed_handleTransitionEnd[OF assms(1)] obtain s' where
    s': "handleTransitionEnd s = Inr s'" "constructed s'" "\<not> isMoving s'"
      "options s' = options s" "cardCount s' = cardCount s" "currentIndex s' = currentIndex s"
    by blast
  obtain tr where tr: "track (s\<lparr>isMoving := False\<rparr>) = Some tr"
    using assms(1) by (auto simp: constructed_def built_def)
  have "allCards s' = allCards s @
       (if int (length (allCards s)) - currentIndex s - visible (options s) < step (options s) * 3
        then batch (cardCount s) (int (length (allCards s))) else [])"
    using s'(1) assms(2) ensureEnoughCards_eq[OF tr]
    by (auto simp: handleTransitionEnd_def Let_def)
  with s' show ?thesis by blast
qed

lemma batch_pattern:
  assumes "1 \<le> cnt" "0 \<le> len"
  shows "batch cnt len = map (\<lambda>p. Clone (p mod cnt) p) [len..len + cnt * 2 - 1]"
proof (rule nth_equalityI)
  show "length (batch cnt len) = length (map (\<lambda>p. Clone (p mod cnt) p) [len..len + cnt * 2 - 1])"
    by simp
next
  fix i assume "i < length (batch cnt len)"
  then have i: "i < nat (cnt * 2)" by simp
  then have "len + int i \<le> len + cnt * 2 - 1" by simp
  then have "map (\<lambda>p. Clone (p mod cnt) p) [len..len + cnt * 2 - 1] ! i
      = Clone ((len + int i) mod cnt) (len + int i)"
    using i by simp
  moreover have "batch cnt len ! i = Clone ((len + int i) mod cnt) (len + int i)"
    using i assms by (simp add: nth_batch js_rem_nonneg)
  ultimately show "batch cnt len ! i = map (\<lambda>p. Clone (p mod cnt) p) [len..len + cnt * 2 - 1] ! i"
    by simp
qed

text \<open>
  C8. An infinite slider constructed over \<open>n \<ge> 1\<close> cards with positive \<open>visible\<close> and
  \<open>step\<close> starts with exactly \<open>visible + step * 10\<close> clones, the clone at position \<open>p\<close>
  carrying \<open>originalIndex = p mod n\<close> and \<open>position = p\<close>. After any sequence of
  operations the sequence still follows this pattern from position \<open>0\<close> on. A completion
  handler that finds fewer than \<open>step * 3\<close> clones beyond the window appends exactly
  \<open>n * 2\<close> clones, whose positions continue from the previous length with the same
  pattern; otherwise it appends nothing.
\<close>

theorem materialization_pattern:
  assumes "infinite_opt opts" and "0 < n" and "0 < visible opts" and "0 < step opts"
    and "Slider_new opts (Some n) = Inr s0"
  shows "int (length (allCards s0)) = visible opts + step opts * 10 \<and>
         allCards s0 = map (\<lambda>p. Clone (p mod int n) p) [0..visible opts + step opts * 10 - 1] \<and>
         (\<exists>s. run ops s0 = Inr s \<and>
            allCards s = map (\<lambda>p. Clone (p mod int n) p) [0..int (length (allCards s)) - 1] \<and>
            (\<exists>s'. handleTransitionEnd s = Inr s' \<and>
               allCards s' = allCards s @
                 (if int (length (allCards s)) - currentIndex s - visible opts < step opts * 3
                  then map (\<lambda>p. Clone (p mod int n) p)
                         [int (length (allCards s))..int (length (allCards s)) + int n * 2 - 1]
                  else []) \<and>
               int (length (allCards s')) = int (length (allCards s)) +
                 (if int (length (allCards s)) - currentIndex s - visible opts < step opts * 3
                  then int n * 2 else 0)))"
proof -
  have s0: "s0 = init (Some n) (initial opts)" using assms(5) by (simp add: Slider_new_def)
  have c0: "constructed s0" and o0: "options s0 = opts" and n0: "cardCount s0 = int n"
    using Slider_new_success[OF assms(2,5)] by simp_all
  have a0: "allCards s0 = map (\<lambda>p. Clone (p mod int n) p) [0..visible opts + step opts * 10 - 1]"
    using init_success(8)[OF assms(2), of opts] assms(1) by (simp add: s0)
  have l0: "int (length (allCards s0)) = visible opts + step opts * 10"
    using assms(3,4) by (simp add: a0)
  from constructed_run[OF c0, of ops] obtain s where
    s: "run ops s0 = Inr s" "constructed s" "options s = opts" "cardCount s = int n"
    using o0 n0 by auto
  have p: "allCards s = map (\<lambda>p. Clone (p mod int n) p) [0..int (length (allCards s)) - 1]"
    using s(2,4) by (simp add: constructed_def pattern_ok_def)
  from handleTransitionEnd_grows[OF s(2)] assms(1) s(3) obtain s' where
    s': "handleTransitionEnd s = Inr s'"
      "allCards s' = allCards s @
       (if int (length (allCards s)) - currentIndex s - visible (options s) < step (options s) * 3
        then batch (cardCount s) (int (length (allCards s))) else [])"
    by auto
  have b: "batch (int n) (int (length (allCards s))) =
      map (\<lambda>p. Clone (p mod int n) p)
        [int (length (allCards s))..int (length (allCards s)) + int n * 2 - 1]"
    using assms(2) by (intro batch_pattern) simp_all
  have g: "allCards s' = allCards s @
       (if int (length (allCards s)) - currentIndex s - visible opts < step opts * 3
        then map (\<lambda>p. Clone (p mod int n) p)
               [int (length (allCards s))..int (length (allCards s)) + int n * 2 - 1]
        else [])"
    using s'(2) by (simp only: s(3,4) b)
  have gl: "int (length (allCards s')) = int (length (allCards s)) +
       (if int (length (allCards s)) - currentIndex s - visible opts < step opts * 3
        then int n * 2 else 0)"
    by (simp add: g)
  show ?thesis using l0 a0 s(1) p s'(1) g gl by blast
qed

theorem materialization_pattern_witness:
  "infinite_opt exampleOptions \<and> (0::nat) < 9 \<and> 0 < visible exampleOptions \<and>
   0 < step exampleOptions \<and> Slider_new exampleOptions (Some 9) = Inr exampleSlider \<and>
   int (length (allCards exampleSlider)) = 36 \<and>
   (\<exists>s. run [GoToPage 8] exampleSlider = Inr s \<and> currentIndex s = 24 \<and>
      int (length (allCards s)) = 36 \<and>
      (\<exists>s'. handleTransitionEnd s = Inr s' \<and> int (length (allCards s')) = 54 \<and>
         allCards s' ! 35 = Clone 8 35 \<and> allCards s' ! 40 = Clone 4 40))"
proof -
  have h: "infinite_opt exampleOptions" "(0::nat) < 9" "0 < visible exampleOptions"
    "0 < step exampleOptions" "Slider_new exampleOptions (Some 9) = Inr exampleSlider"
    by (simp_all add: exampleOptions_def exampleSlider_def Slider_new_def)
  from materialization_pattern[OF h, of "[GoToPage 8]"] obtain s s' where
    l0: "int (length (allCards exampleSlider)) = visible exampleOptions + step exampleOptions * 10"
    and s: "run [GoToPage 8] exampleSlider = Inr s"
    and p: "allCards s = map (\<lambda>p. Clone (p mod int 9) p) [0..int (length (allCards s)) - 1]"
    and te: "handleTransitionEnd s = Inr s'"
    and g: "allCards s' = allCards s @
       (if int (length (allCards s)) - currentIndex s - visible exampleOptions
            < step exampleOptions * 3
        then map (\<lambda>p. Clone (p mod int 9) p)
               [int (length (allCards s))..int (length (allCards s)) + int 9 * 2 - 1]
        else [])"
    by blast
  have s_eq: "s = goToPage 8 exampleSlider" using s by simp
  have i: "currentIndex s = 24"
    using exampleSlider_facts
    by (simp add: s_eq currentIndex_moves exampleOptions_def toDouble_exact)
  have len0: "int (length (allCards exampleSlider)) = 36"
    using l0 by (simp add: exampleOptions_def)
  have len: "int (length (allCards s)) = 36" using len0 by (simp add: s_eq)
  have ln: "length (allCards s) = 36" using len by presburger
  have g': "allCards s' = allCards s @ map (\<lambda>p. Clone (p mod 9) p) [36..53]"
    using g by (simp add: i len exampleOptions_def)
  have len': "int (length (allCards s')) = 54" by (simp add: g' ln)
  have a35: "allCards s ! 35 = Clone 8 35"
  proof -
    have "allCards s = map (\<lambda>p. Clone (p mod 9) p) [0..35]" using p by (simp add: len)
    then have "allCards s ! 35 = map (\<lambda>p. Clone (p mod 9) p) [0..35] ! 35" by simp
    also have "\<dots> = Clone 8 35" by simp
    finally show ?thesis .
  qed
  have n35: "allCards s' ! 35 = Clone 8 35" using a35 by (simp add: g' nth_append ln)
  have n40: "allCards s' ! 40 = Clone 4 40" by (simp add: g' nth_append ln)
  show ?thesis using h len0 s i len te len' n35 n40 by blast
qed

section \<open>Growth\<close>

lemma next_completed:
  assumes "constructed s" "infinite_opt (options s)" "\<not> isMoving s"
    and "\<bar>currentIndex s + step (options s)\<bar> < 2 ^ 53"
  shows "\<exists>s'. handleTransitionEnd (Slider_next s) = Inr s' \<and> constructed s' \<and> \<not> isMoving s' \<and>
     options s' = options s \<and> cardCount s' = cardCount s \<and>
     currentIndex s' = currentIndex s + step (options s) \<and>
     remainingCards s' = remainingCards s - step (options s) +
       (if remainingCards s - step (options s) < step (options s) * 3 then cardCount s * 2 else 0)"
proof -
  let ?m = "Slider_next s"
  have m: "constructed ?m" "infinite_opt (options ?m)"
    using assms(1,2) by (simp_all add: constructed_next)
  have i: "currentIndex ?m = currentIndex s + step (options s)"
    using assms(3,4) by (simp add: currentIndex_moves toDouble_exact)
  from handleTransitionEnd_grows[OF m] obtain s' where
    s': "handleTransitionEnd ?m = Inr s'" "constructed s'" "\<not> isMoving s'"
      "options s' = options ?m" "cardCount s' = cardCount ?m" "currentIndex s' = currentIndex ?m"
      "allCards s' = allCards ?m @
       (if int (length (allCards ?m)) - currentIndex ?m - visible (options ?m) < step (options ?m) * 3
        then batch (cardCount ?m) (int (length (allCards ?m))) else [])"
    by blast
  have c: "1 \<le> cardCount s" using assms(1) by (simp add: constructed_def built_def)
  have "remainingCards s' = remainingCards s - step (options s) +
       (if remainingCards s - step (options s) < step (options s) * 3 then cardCount s * 2 else 0)"
    using s'(4-7) i c by (simp add: remainingCards_def)
  then show ?thesis using s' i by simp
qed

lemma nexts_keep_margin:
  assumes "constructed s" "infinite_opt (options s)" "\<not> isMoving s"
    and "0 < step (options s)" "step (options s) \<le> cardCount s * 2"
    and "step (options s) * 2 \<le> remainingCards s"
    and "0 \<le> currentIndex s" "currentIndex s + int k * step (options s) < 2 ^ 53"
  shows "\<exists>s'. nexts k s = Inr s' \<and> step (options s) * 2 \<le> remainingCards s'"
  using assms
proof (induction k arbitrary: s)
  case 0
  then show ?case by simp
next
  case (Suc k)
  let ?st = "step (options s)"
  have ks: "0 \<le> int k * ?st" using Suc.prems(4) by simp
  have up: "currentIndex s + ?st + int k * ?st < 2 ^ 53"
    using Suc.prems(8) by (simp add: algebra_simps)
  have b: "\<bar>currentIndex s + ?st\<bar> < 2 ^ 53" using Suc.prems(4,7) ks up by linarith
  from next_completed[OF Suc.prems(1-3) b] obtain s1 where
    s1: "handleTransitionEnd (Slider_next s) = Inr s1" "constructed s1" "\<not> isMoving s1"
      "options s1 = options s" "cardCount s1 = cardCount s"
      "currentIndex s1 = currentIndex s + ?st"
      "remainingCards s1 = remainingCards s - step (options s) +
       (if remainingCards s - step (options s) < step (options s) * 3 then cardCount s * 2 else 0)"
    by blast
  have r: "step (options s1) * 2 \<le> remainingCards s1"
    using s1(4,7) Suc.prems(4-6) by (simp split: if_splits)
  have "\<exists>s'. nexts k s1 = Inr s' \<and> step (options s1) * 2 \<le> remainingCards s'"
    using s1(2,3) r Suc.prems(2,4,5,7) up
    by (intro Suc.IH) (simp_all add: s1(4,5,6))
  then show ?case using s1(1,4) by auto
qed

text \<open>
  The invariant does hold, for any number of completed moves that keeps the cursor below
  \<open>2^53\<close>, when one batch covers a step (\<open>step \<le> cardCount * 2\<close>): then at least
  \<open>step * 2\<close> clones remain beyond the window after every completed move.
\<close>

lemma growth_invariant_if_batch_covers_step:
  assumes "infinite_opt opts" and "0 < n" and "0 < visible opts" and "0 < step opts"
    and "step opts \<le> int n * 2" and "Slider_new opts (Some n) = Inr s0"
    and "int k * step opts < 2 ^ 53"
  shows "\<exists>s. nexts k s0 = Inr s \<and> 0 \<le> remainingCards s"
proof -
  have s0: "s0 = init (Some n) (initial opts)" using assms(6) by (simp add: Slider_new_def)
  have c0: "constructed s0" "options s0 = opts" "cardCount s0 = int n" "currentIndex s0 = 0"
    "\<not> isMoving s0"
    using Slider_new_success[OF assms(2,6)] by simp_all
  have "allCards s0 = map (\<lambda>p. Clone (p mod int n) p) [0..visible opts + step opts * 10 - 1]"
    using init_success(8)[OF assms(2), of opts] assms(1) by (simp add: s0)
  then have "int (length (allCards s0)) = visible opts + step opts * 10"
    using assms(3,4) by simp
  then have r0: "remainingCards s0 = step opts * 10" by (simp add: remainingCards_def c0)
  have "\<exists>s'. nexts k s0 = Inr s' \<and> step (options s0) * 2 \<le> remainingCards s'"
    using c0 assms(1,4,5,7) r0 by (intro nexts_keep_margin) simp_all
  then show ?thesis using c0(2) assms(4) by auto
qed

text \<open>
  C1. The growth invariant asks that after every completed move the materialized sequence
  reaches the end of the window: \<open>len(sequence) - currentIndex - visible \<ge> 0\<close>. A
  completed \<open>next()\<close> moves the window by \<open>step\<close>, and the completion handler appends
  one batch of \<open>cardCount * 2\<close> clones, once, when fewer than \<open>step * 3\<close> remain. With a
  single card and the default options (six visible, step three) a batch of two does not
  cover a step of three: after seventeen completed moves the sequence holds 56 clones and
  the cursor stands at 51, so that the window ends one position past the sequence.
\<close>

theorem growth_invariant_fails:
  "(case Slider_new \<lparr>visible = 6, step = 3, infinite_opt = True\<rparr> (Some 1) of
      Inl e \<Rightarrow> None
    | Inr s0 \<Rightarrow>
        (case nexts 17 s0 of
           Inl e \<Rightarrow> None
         | Inr s \<Rightarrow> Some (int (length (allCards s)), currentIndex s, remainingCards s)))
   = Some (56, 51, - 1)"
  by code_simp

end
